theory Spec2Isabelle
  imports Main "HOL-Library.Multiset"
begin

section \<open>Values, errors and the table engine\<close>

text \<open>
  \<^verbatim>\<open>matchzoo/data_pack/data_pack.py\<close> keeps three pandas \<^verbatim>\<open>DataFrame\<close>s in a
  \<^verbatim>\<open>DataPack\<close>. The engine itself (pandas) is a library of the program; the part of its
  documented behaviour that the module calls is written out below, one definition per
  call, every raise as an \<open>Inl\<close> result.
\<close>

datatype val = IntV int | StrV string | NaN

datatype error =
  KeyError | ValueError | FileExistsError | FileNotFoundError | NotADirectoryError
  | IsADirectoryError | UnpicklingError | TypeError | FuncError

text \<open>Sequencing of calls that may raise: the first exception ends the computation.\<close>

definition and_then :: "'e + 'a \<Rightarrow> ('a \<Rightarrow> 'e + 'b) \<Rightarrow> 'e + 'b" where
  "and_then r f = (case r of Inl e \<Rightarrow> Inl e | Inr x \<Rightarrow> f x)"

text \<open>
  A \<^verbatim>\<open>DataFrame\<close>: the row labels (\<^verbatim>\<open>df.index\<close>) with their optional name, the column
  names in order, and the cells row by row. A \<^verbatim>\<open>Series\<close> is one named column with the
  row labels.
\<close>

record dataframe =
  index_name :: "string option"
  index :: "val list"
  columns :: "string list"
  rows :: "val list list"

record series =
  s_name :: string
  s_index :: "val list"
  s_values :: "val list"

text \<open>
  A frame is rectangular, one label per row and one cell per column and row, and no
  column name is used twice.
\<close>

definition frame_ok :: "dataframe \<Rightarrow> bool" where
  "frame_ok df \<longleftrightarrow>
     length (index df) = length (rows df) \<and>
     list_all (\<lambda>r. length r = length (columns df)) (rows df) \<and>
     distinct (columns df)"

text \<open>\<^verbatim>\<open>RangeIndex(n)\<close>: the labels \<open>0, \<dots>, n - 1\<close>.\<close>

definition range_index :: "nat \<Rightarrow> val list" where
  "range_index n = map (\<lambda>i. IntV (int i)) [0..<n]"

text \<open>The positions of the rows that carry a label, in table order.\<close>

definition label_positions :: "val \<Rightarrow> val list \<Rightarrow> nat list" where
  "label_positions l ix = filter (\<lambda>i. ix ! i = l) [0..<length ix]"

definition take_rows :: "nat list \<Rightarrow> dataframe \<Rightarrow> dataframe" where
  "take_rows ps df = df\<lparr>index := map (\<lambda>p. index df ! p) ps, rows := map (\<lambda>p. rows df ! p) ps\<rparr>"

text \<open>
  \<^verbatim>\<open>df.loc[labels]\<close> with a list of labels: for each requested label, in the order
  requested, every row that carries it; \<^verbatim>\<open>KeyError\<close> when a label is in no row.
\<close>

definition loc :: "val list \<Rightarrow> dataframe \<Rightarrow> error + dataframe" where
  "loc labels df =
     (if list_all (\<lambda>l. l \<in> set (index df)) labels
      then Inr (take_rows (concat (map (\<lambda>l. label_positions l (index df)) labels)) df)
      else Inl KeyError)"

text \<open>\<^verbatim>\<open>df[name]\<close>: the column as a series; \<^verbatim>\<open>KeyError\<close> when there is none.\<close>

definition column_position :: "string \<Rightarrow> string list \<Rightarrow> nat option" where
  "column_position c cs = (case filter (\<lambda>j. cs ! j = c) [0..<length cs] of [] \<Rightarrow> None | j # _ \<Rightarrow> Some j)"

definition getcol :: "string \<Rightarrow> dataframe \<Rightarrow> error + series" where
  "getcol c df =
     (case column_position c (columns df) of
        None \<Rightarrow> Inl KeyError
      | Some j \<Rightarrow> Inr \<lparr>s_name = c, s_index = index df, s_values = map (\<lambda>r. r ! j) (rows df)\<rparr>)"

text \<open>
  \<^verbatim>\<open>series[labels]\<close> on a series with integer row labels and a list of integers is
  the label lookup of \<^verbatim>\<open>loc\<close>.
\<close>

definition series_getitem :: "val list \<Rightarrow> series \<Rightarrow> error + series" where
  "series_getitem labels sr =
     (if list_all (\<lambda>l. l \<in> set (s_index sr)) labels
      then (let ps = concat (map (\<lambda>l. label_positions l (s_index sr)) labels)
            in Inr (sr\<lparr>s_index := map (\<lambda>p. s_index sr ! p) ps, s_values := map (\<lambda>p. s_values sr ! p) ps\<rparr>))
      else Inl KeyError)"

text \<open>\<^verbatim>\<open>series.unique()\<close>: the values in order of first appearance.\<close>

fun first_occurrences :: "val list \<Rightarrow> val list \<Rightarrow> val list" where
  "first_occurrences seen [] = []"
| "first_occurrences seen (x # xs) =
     (if x \<in> set seen then first_occurrences seen xs else x # first_occurrences (x # seen) xs)"

definition unique :: "series \<Rightarrow> val list" where
  "unique sr = first_occurrences [] (s_values sr)"

text \<open>\<^verbatim>\<open>series.to_frame()\<close>: a frame of one column, named as the series.\<close>

definition to_frame :: "series \<Rightarrow> dataframe" where
  "to_frame sr = \<lparr>index_name = None, index = s_index sr, columns = [s_name sr],
                  rows = map (\<lambda>v. [v]) (s_values sr)\<rparr>"

text \<open>
  \<^verbatim>\<open>df.reset_index()\<close> moves the row labels into a new first column, named after the
  index (\<^verbatim>\<open>index\<close>, or \<^verbatim>\<open>level_0\<close> when that is taken, for an unnamed index) and
  numbers the rows afresh; \<^verbatim>\<open>ValueError\<close> when the column exists already.
  \<^verbatim>\<open>df.reset_index(drop=True)\<close> only numbers the rows afresh.
\<close>

definition index_column_name :: "dataframe \<Rightarrow> string" where
  "index_column_name df =
     (case index_name df of
        Some n \<Rightarrow> n
      | None \<Rightarrow> if ''index'' \<in> set (columns df) then ''level_0'' else ''index'')"

definition reset_index :: "dataframe \<Rightarrow> error + dataframe" where
  "reset_index df =
     (let name = index_column_name df
      in if name \<in> set (columns df) then Inl ValueError
         else Inr \<lparr>index_name = None, index = range_index (length (rows df)),
                   columns = name # columns df,
                   rows = map (\<lambda>(l, r). l # r) (zip (index df) (rows df))\<rparr>)"

definition reset_index_drop :: "dataframe \<Rightarrow> dataframe" where
  "reset_index_drop df = df\<lparr>index_name := None, index := range_index (length (rows df))\<rparr>"

text \<open>
  \<^verbatim>\<open>a.join(b)\<close>: the left join on the row labels. The columns of \<open>a\<close> then those of
  \<open>b\<close>, \<^verbatim>\<open>ValueError\<close> when a name is in both; every row of \<open>a\<close>, in order, extended by
  each row of \<open>b\<close> under the same label, or by missing values when there is none.
\<close>

definition join_row :: "dataframe \<Rightarrow> val \<times> val list \<Rightarrow> (val \<times> val list) list" where
  "join_row b lr =
     (case label_positions (fst lr) (index b) of
        [] \<Rightarrow> [(fst lr, snd lr @ replicate (length (columns b)) NaN)]
      | ps \<Rightarrow> map (\<lambda>p. (fst lr, snd lr @ rows b ! p)) ps)"

definition join :: "dataframe \<Rightarrow> dataframe \<Rightarrow> error + dataframe" where
  "join a b =
     (if list_ex (\<lambda>c. c \<in> set (columns b)) (columns a) then Inl ValueError
      else (let joined = concat (map (join_row b) (zip (index a) (rows a)))
            in Inr \<lparr>index_name = index_name a, index = map fst joined,
                    columns = columns a @ columns b, rows = map snd joined\<rparr>))"

text \<open>
  \<^verbatim>\<open>df.drop(columns=name)\<close>: a new frame without the column; \<^verbatim>\<open>KeyError\<close> when
  there is no such column.
\<close>

definition drop_cells :: "string \<Rightarrow> string list \<Rightarrow> val list \<Rightarrow> val list" where
  "drop_cells c cs r = map snd (filter (\<lambda>cv. fst cv \<noteq> c) (zip cs r))"

definition drop_columns :: "string \<Rightarrow> dataframe \<Rightarrow> error + dataframe" where
  "drop_columns c df =
     (if c \<in> set (columns df)
      then Inr (df\<lparr>columns := filter (\<lambda>x. x \<noteq> c) (columns df),
                   rows := map (drop_cells c (columns df)) (rows df)\<rparr>)
      else Inl KeyError)"

text \<open>
  \<^verbatim>\<open>df.sample(frac=1)\<close>: all rows, with their labels, in a random order. The order
  drawn is the parameter \<open>perm\<close>, a permutation of the positions.
\<close>

definition sample :: "nat list \<Rightarrow> dataframe \<Rightarrow> dataframe" where
  "sample perm df = take_rows perm df"

text \<open>
  \<^verbatim>\<open>df[name] = values\<close>: overwrites the column when it exists, appends it as the
  last column otherwise.
\<close>

definition set_column :: "string \<Rightarrow> val list \<Rightarrow> dataframe \<Rightarrow> dataframe" where
  "set_column c vs df =
     (case column_position c (columns df) of
        Some j \<Rightarrow> df\<lparr>rows := map (\<lambda>(r, v). r[j := v]) (zip (rows df) vs)\<rparr>
      | None \<Rightarrow> df\<lparr>columns := columns df @ [c],
                    rows := map (\<lambda>(r, v). r @ [v]) (zip (rows df) vs)\<rparr>)"

text \<open>
  \<^verbatim>\<open>series.apply(func)\<close>: \<open>func\<close> on every value in order; an exception of \<open>func\<close>
  ends the call.
\<close>

fun apply_func :: "(val \<Rightarrow> error + val) \<Rightarrow> val list \<Rightarrow> error + val list" where
  "apply_func f [] = Inr []"
| "apply_func f (v # vs) =
     and_then (f v) (\<lambda>w. and_then (apply_func f vs) (\<lambda>ws. Inr (w # ws)))"

section \<open>Index normalisation\<close>

text \<open>
  \<^verbatim>\<open>_convert_to_list_index(index, length)\<close>: an \<^verbatim>\<open>int\<close> becomes a list of one
  element, a \<^verbatim>\<open>slice\<close> becomes \<^verbatim>\<open>list(range(*index.indices(length)))\<close>, anything else
  (an array of integers) is returned as it is.
\<close>

datatype index_arg =
  IntIndex int
  | SliceIndex "int option" "int option" "int option"
  | ArrayIndex "int list"

text \<open>
  \<^verbatim>\<open>slice(start, stop, step).indices(length)\<close>, as the language reference computes
  it: a zero step raises; a negative bound counts from the end; both bounds are clipped
  to \<open>[0, length]\<close> for a positive step and to \<open>[-1, length - 1]\<close> for a negative one.
\<close>

definition slice_indices :: "int option \<Rightarrow> int option \<Rightarrow> int option \<Rightarrow> int \<Rightarrow> error + (int \<times> int \<times> int)" where
  "slice_indices start stop step length' =
     (let st = (case step of None \<Rightarrow> 1 | Some k \<Rightarrow> k)
      in if st = 0 then Inl ValueError
         else (let lower = (if st < 0 then - 1 else 0);
                   upper = (if st < 0 then length' - 1 else length');
                   clip = (\<lambda>b. if b < 0 then max (b + length') lower else min b upper);
                   s = (case start of None \<Rightarrow> (if st < 0 then upper else lower) | Some b \<Rightarrow> clip b);
                   e = (case stop of None \<Rightarrow> (if st < 0 then lower else upper) | Some b \<Rightarrow> clip b)
               in Inr (s, e, st)))"

text \<open>\<^verbatim>\<open>list(range(start, stop, step))\<close>; \<^verbatim>\<open>range\<close> raises on a zero step.\<close>

definition py_range :: "int \<Rightarrow> int \<Rightarrow> int \<Rightarrow> error + int list" where
  "py_range start stop step =
     (if step = 0 then Inl ValueError
      else (let lo = (if 0 < step then start else stop);
                hi = (if 0 < step then stop else start);
                n = (if hi \<le> lo then 0 else nat ((hi - lo - 1) div \<bar>step\<bar> + 1))
            in Inr (map (\<lambda>k. start + int k * step) [0..<n])))"

fun convert_to_list_index :: "index_arg \<Rightarrow> nat \<Rightarrow> error + int list" where
  "convert_to_list_index (IntIndex i) n = Inr [i]"
| "convert_to_list_index (SliceIndex start stop step) n =
     and_then (slice_indices start stop step (int n)) (\<lambda>(s, e, st). py_range s e st)"
| "convert_to_list_index (ArrayIndex xs) n = Inr xs"

section \<open>Objects\<close>

text \<open>
  A \<^verbatim>\<open>DataPack\<close> object holds references to three frame objects in its attributes
  \<^verbatim>\<open>_relation\<close>, \<^verbatim>\<open>_left\<close> and \<^verbatim>\<open>_right\<close>. The store keeps the frame objects and the
  \<^verbatim>\<open>DataPack\<close> objects; a reference is a position in it, and a new object goes to the end.
\<close>

record data_pack =
  relation_ref :: nat
  left_ref :: nat
  right_ref :: nat

record store =
  frames :: "dataframe list"
  packs :: "data_pack list"

definition store_ok :: "store \<Rightarrow> bool" where
  "store_ok s \<longleftrightarrow>
     list_all (\<lambda>p. relation_ref p < length (frames s) \<and> left_ref p < length (frames s) \<and>
                    right_ref p < length (frames s)) (packs s)"

definition new_frame :: "dataframe \<Rightarrow> store \<Rightarrow> nat \<times> store" where
  "new_frame df s = (length (frames s), s\<lparr>frames := frames s @ [df]\<rparr>)"

text \<open>\<^verbatim>\<open>DataPack(relation=..., left=..., right=...)\<close>, \<^verbatim>\<open>__init__\<close>.\<close>

definition DataPack :: "nat \<Rightarrow> nat \<Rightarrow> nat \<Rightarrow> store \<Rightarrow> nat \<times> store" where
  "DataPack rel l r s =
     (length (packs s), s\<lparr>packs := packs s @ [\<lparr>relation_ref = rel, left_ref = l, right_ref = r\<rparr>]\<rparr>)"

text \<open>The properties \<^verbatim>\<open>relation\<close>, \<^verbatim>\<open>left\<close>, \<^verbatim>\<open>right\<close>, \<^verbatim>\<open>has_label\<close> and \<^verbatim>\<open>__len__\<close>.\<close>

definition relation :: "store \<Rightarrow> nat \<Rightarrow> dataframe" where
  "relation s self = frames s ! relation_ref (packs s ! self)"

definition left :: "store \<Rightarrow> nat \<Rightarrow> dataframe" where
  "left s self = frames s ! left_ref (packs s ! self)"

definition right :: "store \<Rightarrow> nat \<Rightarrow> dataframe" where
  "right s self = frames s ! right_ref (packs s ! self)"

definition has_label :: "store \<Rightarrow> nat \<Rightarrow> bool" where
  "has_label s self \<longleftrightarrow> ''label'' \<in> set (columns (relation s self))"

definition len :: "store \<Rightarrow> nat \<Rightarrow> nat" where
  "len s self = length (rows (relation s self))"

text \<open>
  \<^verbatim>\<open>copy\<close>: a new \<^verbatim>\<open>DataPack\<close> on \<^verbatim>\<open>DataFrame.copy()\<close> of the three frames (the keyword
  arguments are evaluated in the order written: left, right, relation).
\<close>

definition copy :: "store \<Rightarrow> nat \<Rightarrow> nat \<times> store" where
  "copy s self =
     (let (l, s1) = new_frame (left s self) s;
          (r, s2) = new_frame (right s self) s1;
          (rel, s3) = new_frame (relation s self) s2
      in DataPack rel l r s3)"

section \<open>Subsetting: \<^verbatim>\<open>DataPack.__getitem__\<close>\<close>

definition getitem_frames :: "store \<Rightarrow> nat \<Rightarrow> index_arg \<Rightarrow> error + (dataframe \<times> dataframe \<times> dataframe)" where
  "getitem_frames s self ix =
     and_then (convert_to_list_index ix (len s self)) (\<lambda>index'.
     and_then (loc (map IntV index') (relation s self)) (\<lambda>selected.
     let relation' = reset_index_drop selected in
     and_then (getcol ''id_left'' relation') (\<lambda>ids_left.
     and_then (loc (unique ids_left) (left s self)) (\<lambda>left'.
     and_then (getcol ''id_right'' relation') (\<lambda>ids_right.
     and_then (loc (unique ids_right) (right s self)) (\<lambda>right'.
     Inr (relation', left', right')))))))"

definition getitem :: "store \<Rightarrow> nat \<Rightarrow> index_arg \<Rightarrow> (error + nat) \<times> store" where
  "getitem s self ix =
     (case getitem_frames s self ix of
        Inl e \<Rightarrow> (Inl e, s)
      | Inr (relation', left', right') \<Rightarrow>
          (let (l, s1) = new_frame left' s;
               (r, s2) = new_frame right' s1;
               (rel, s3) = new_frame relation' s2;
               (p, s4) = DataPack rel l r s3
           in (Inr p, s4)))"

section \<open>The frame view: \<^verbatim>\<open>DataPackFrameView\<close>\<close>

text \<open>The view object has one attribute, \<^verbatim>\<open>_data_pack\<close>, a reference.\<close>

record frame_view =
  view_data_pack :: nat

definition frame :: "nat \<Rightarrow> frame_view" where
  "frame self = \<lparr>view_data_pack = self\<rparr>"

text \<open>The loop of \<^verbatim>\<open>DataPackFrameView.__getitem__\<close> over \<^verbatim>\<open>dp.relation.columns\<close>.\<close>

fun join_relation_columns :: "dataframe \<Rightarrow> val list \<Rightarrow> string list \<Rightarrow> dataframe \<Rightarrow> error + dataframe" where
  "join_relation_columns rel labels [] joined_table = Inr joined_table"
| "join_relation_columns rel labels (column # cs) joined_table =
     (if column \<notin> set [''id_left'', ''id_right'']
      then and_then (getcol column rel) (\<lambda>sr.
           and_then (series_getitem labels sr) (\<lambda>picked.
           and_then (join joined_table (reset_index_drop (to_frame picked))) (\<lambda>joined'.
           join_relation_columns rel labels cs joined')))
      else join_relation_columns rel labels cs joined_table)"

definition view_getitem :: "store \<Rightarrow> frame_view \<Rightarrow> index_arg \<Rightarrow> error + dataframe" where
  "view_getitem s v ix =
     (let dp = view_data_pack v in
      and_then (convert_to_list_index ix (len s dp)) (\<lambda>index'.
      let labels = map IntV index' in
      and_then (getcol ''id_left'' (relation s dp)) (\<lambda>col_left.
      and_then (series_getitem labels col_left) (\<lambda>ids_left.
      and_then (loc (s_values ids_left) (left s dp)) (\<lambda>left_sel.
      and_then (reset_index left_sel) (\<lambda>left_df.
      and_then (getcol ''id_right'' (relation s dp)) (\<lambda>col_right.
      and_then (series_getitem labels col_right) (\<lambda>ids_right.
      and_then (loc (s_values ids_right) (right s dp)) (\<lambda>right_sel.
      and_then (reset_index right_sel) (\<lambda>right_df.
      and_then (join left_df right_df) (\<lambda>joined_table.
      join_relation_columns (relation s dp) labels (columns (relation s dp)) joined_table)))))))))))"

text \<open>\<^verbatim>\<open>__call__\<close> is \<^verbatim>\<open>self[:]\<close>, the slice with no bound and no step.\<close>

definition view_call :: "store \<Rightarrow> frame_view \<Rightarrow> error + dataframe" where
  "view_call s v = view_getitem s v (SliceIndex None None None)"

section \<open>\<^verbatim>\<open>DataPack.unpack\<close>\<close>

text \<open>
  \<^verbatim>\<open>list.remove(x)\<close> drops the first \<open>x\<close> and raises \<^verbatim>\<open>ValueError\<close> when there is
  none; \<^verbatim>\<open>frame[columns]\<close> with a list of names keeps those columns, in that order;
  \<^verbatim>\<open>to_dict(orient='list')\<close> maps each column name to the list of its values.
\<close>

definition list_remove :: "string \<Rightarrow> string list \<Rightarrow> error + string list" where
  "list_remove x xs = (if x \<in> set xs then Inr (remove1 x xs) else Inl ValueError)"

fun select_columns :: "string list \<Rightarrow> dataframe \<Rightarrow> error + (string \<times> val list) list" where
  "select_columns [] df = Inr []"
| "select_columns (c # cs) df =
     and_then (getcol c df) (\<lambda>sr.
     and_then (select_columns cs df) (\<lambda>rest. Inr ((c, s_values sr) # rest)))"

text \<open>
  \<^verbatim>\<open>str(v)\<close> for a whole number, a text and the missing value.
\<close>

definition digit :: "nat \<Rightarrow> char" where
  "digit n = ''0123456789'' ! n"

fun decimal :: "nat \<Rightarrow> string" where
  "decimal n = (if n < 10 then [digit n] else decimal (n div 10) @ [digit (n mod 10)])"

definition py_str :: "val \<Rightarrow> string" where
  "py_str v =
     (case v of
        StrV t \<Rightarrow> t
      | IntV i \<Rightarrow> if i < 0 then ''-'' @ decimal (nat (- i)) else decimal (nat i)
      | NaN \<Rightarrow> ''nan'')"

text \<open>
  \<^verbatim>\<open>np.array(val)\<close> of a list gives the array one element type, found from the
  elements: when one of them is a text the array is an array of texts, and every number
  and missing value in it is stored as its text, \<^verbatim>\<open>str(v)\<close>; numbers and missing
  values alone keep their values. \<^verbatim>\<open>np.array(frame['label'])\<close> of a series is the array
  the series holds, with its values as they are.
\<close>

definition is_text :: "val \<Rightarrow> bool" where
  "is_text v = (case v of StrV t \<Rightarrow> True | _ \<Rightarrow> False)"

definition np_array :: "val list \<Rightarrow> val list" where
  "np_array vs = (if list_ex is_text vs then map (\<lambda>v. StrV (py_str v)) vs else vs)"

definition np_array_of_series :: "series \<Rightarrow> val list" where
  "np_array_of_series sr = s_values sr"

definition unpack :: "store \<Rightarrow> nat \<Rightarrow> error + ((string \<times> val list) list \<times> val list option)" where
  "unpack s self =
     and_then (view_call s (frame self)) (\<lambda>fr.
     and_then (if has_label s self
               then and_then (list_remove ''label'' (columns fr)) (\<lambda>cs.
                    and_then (getcol ''label'' fr) (\<lambda>y. Inr (cs, Some (np_array_of_series y))))
               else Inr (columns fr, None)) (\<lambda>(cs, y).
     and_then (select_columns cs fr) (\<lambda>x.
     Inr (map (\<lambda>(key, val). (key, np_array val)) x, y))))"

section \<open>Operations with an optional \<^verbatim>\<open>inplace\<close>\<close>

text \<open>
  The decorator \<^verbatim>\<open>_optional_inplace\<close>: the method body runs on the receiver or on a
  copy of it; the copy is returned, and nothing (\<open>None\<close>) when \<^verbatim>\<open>inplace\<close> is set.
\<close>

definition optional_inplace ::
  "(store \<Rightarrow> nat \<Rightarrow> (error + unit) \<times> store) \<Rightarrow> store \<Rightarrow> nat \<Rightarrow> bool \<Rightarrow> (error + nat option) \<times> store" where
  "optional_inplace func s self inplace =
     (let (target, s1) = (if inplace then (self, s) else copy s self)
      in case func s1 target of
           (Inl e, s2) \<Rightarrow> (Inl e, s2)
         | (Inr u, s2) \<Rightarrow> (Inr (if \<not> inplace then Some target else None), s2))"

text \<open>Assignment to the attribute \<^verbatim>\<open>self._relation\<close>.\<close>

definition set_relation :: "nat \<Rightarrow> nat \<Rightarrow> store \<Rightarrow> store" where
  "set_relation self r s = s\<lparr>packs := (packs s)[self := (packs s ! self)\<lparr>relation_ref := r\<rparr>]\<rparr>"

text \<open>
  \<^verbatim>\<open>shuffle\<close>: \<^verbatim>\<open>sample(frac=1)\<close> makes a new frame, which is bound to
  \<^verbatim>\<open>self._relation\<close> and then renumbered in place.
\<close>

definition shuffle_body :: "nat list \<Rightarrow> store \<Rightarrow> nat \<Rightarrow> (error + unit) \<times> store" where
  "shuffle_body perm s self =
     (let (r, s1) = new_frame (sample perm (relation s self)) s;
          s2 = set_relation self r s1;
          s3 = s2\<lparr>frames := (frames s2)[relation_ref (packs s2 ! self) := reset_index_drop (relation s2 self)]\<rparr>
      in (Inr (), s3))"

definition shuffle :: "nat list \<Rightarrow> store \<Rightarrow> nat \<Rightarrow> bool \<Rightarrow> (error + nat option) \<times> store" where
  "shuffle perm = optional_inplace (shuffle_body perm)"

text \<open>\<^verbatim>\<open>drop_label\<close>: \<^verbatim>\<open>self._relation = self._relation.drop(columns='label')\<close>.\<close>

definition drop_label_body :: "store \<Rightarrow> nat \<Rightarrow> (error + unit) \<times> store" where
  "drop_label_body s self =
     (case drop_columns ''label'' (relation s self) of
        Inl e \<Rightarrow> (Inl e, s)
      | Inr df \<Rightarrow> (let (r, s1) = new_frame df s in (Inr (), set_relation self r s1)))"

definition drop_label :: "store \<Rightarrow> nat \<Rightarrow> bool \<Rightarrow> (error + nat option) \<times> store" where
  "drop_label = optional_inplace drop_label_body"

section \<open>Transforming the text columns\<close>

text \<open>
  The parameter \<^verbatim>\<open>rename\<close> of \<^verbatim>\<open>apply_on_text\<close>: \<^verbatim>\<open>None\<close>, a string, or a pair of
  strings. \<^verbatim>\<open>rename or default\<close> takes the default for \<^verbatim>\<open>None\<close> and for the empty
  string. A pair used as one column label is written here as its printed form.
\<close>

datatype rename_arg = NoRename | RenameTo string | RenameBoth string string

definition is_tuple :: "rename_arg \<Rightarrow> bool" where
  "is_tuple rename = (case rename of RenameBoth a b \<Rightarrow> True | _ \<Rightarrow> False)"

definition name_or :: "rename_arg \<Rightarrow> string \<Rightarrow> string" where
  "name_or rename dflt =
     (case rename of
        NoRename \<Rightarrow> dflt
      | RenameTo n \<Rightarrow> (if n = [] then dflt else n)
      | RenameBoth a b \<Rightarrow> ''('' @ a @ '', '' @ b @ '')'')"

text \<open>
  \<^verbatim>\<open>_apply_on_text_right\<close> and \<^verbatim>\<open>_apply_on_text_left\<close>. With \<^verbatim>\<open>verbose\<close> the
  progress description \<^verbatim>\<open>"Processing " + name + ...\<close> is built first, which raises
  \<^verbatim>\<open>TypeError\<close> for a name that is not a string; the progress display itself has no
  effect on the tables. The new column is computed before it is assigned, and the
  assignment changes the frame object in place.
\<close>

definition apply_on_text_right ::
  "(val \<Rightarrow> error + val) \<Rightarrow> rename_arg \<Rightarrow> bool \<Rightarrow> store \<Rightarrow> nat \<Rightarrow> (error + unit) \<times> store" where
  "apply_on_text_right func rename verbose s self =
     (let name = name_or rename ''text_right'' in
      if verbose \<and> is_tuple rename then (Inl TypeError, s)
      else (case and_then (getcol ''text_right'' (right s self)) (\<lambda>sr. apply_func func (s_values sr)) of
              Inl e \<Rightarrow> (Inl e, s)
            | Inr vs \<Rightarrow>
                (Inr (), s\<lparr>frames := (frames s)[right_ref (packs s ! self) :=
                                         set_column name vs (right s self)]\<rparr>)))"

definition apply_on_text_left ::
  "(val \<Rightarrow> error + val) \<Rightarrow> rename_arg \<Rightarrow> bool \<Rightarrow> store \<Rightarrow> nat \<Rightarrow> (error + unit) \<times> store" where
  "apply_on_text_left func rename verbose s self =
     (let name = name_or rename ''text_left'' in
      if verbose \<and> is_tuple rename then (Inl TypeError, s)
      else (case and_then (getcol ''text_left'' (left s self)) (\<lambda>sr. apply_func func (s_values sr)) of
              Inl e \<Rightarrow> (Inl e, s)
            | Inr vs \<Rightarrow>
                (Inr (), s\<lparr>frames := (frames s)[left_ref (packs s ! self) :=
                                         set_column name vs (left s self)]\<rparr>)))"

text \<open>
  \<^verbatim>\<open>left_name, right_name = rename or ('text_left', 'text_right')\<close>: a pair is taken
  apart; so is a string of two characters; a string of another length raises
  \<^verbatim>\<open>ValueError\<close>.
\<close>

definition unpack_names :: "rename_arg \<Rightarrow> error + (string \<times> string)" where
  "unpack_names rename =
     (case rename of
        NoRename \<Rightarrow> Inr (''text_left'', ''text_right'')
      | RenameBoth a b \<Rightarrow> Inr (a, b)
      | RenameTo n \<Rightarrow>
          (if n = [] then Inr (''text_left'', ''text_right'')
           else if length n = 2 then Inr ([n ! 0], [n ! 1])
           else Inl ValueError))"

definition apply_on_text_both ::
  "(val \<Rightarrow> error + val) \<Rightarrow> rename_arg \<Rightarrow> bool \<Rightarrow> store \<Rightarrow> nat \<Rightarrow> (error + unit) \<times> store" where
  "apply_on_text_both func rename verbose s self =
     (case unpack_names rename of
        Inl e \<Rightarrow> (Inl e, s)
      | Inr (left_name, right_name) \<Rightarrow>
          (case apply_on_text_left func (RenameTo left_name) verbose s self of
             (Inl e, s1) \<Rightarrow> (Inl e, s1)
           | (Inr u, s1) \<Rightarrow> apply_on_text_right func (RenameTo right_name) verbose s1 self))"

definition apply_on_text_body ::
  "(val \<Rightarrow> error + val) \<Rightarrow> string \<Rightarrow> rename_arg \<Rightarrow> bool \<Rightarrow> store \<Rightarrow> nat \<Rightarrow> (error + unit) \<times> store" where
  "apply_on_text_body func mode rename verbose s self =
     (if mode = ''both'' then apply_on_text_both func rename verbose s self
      else if mode = ''left'' then apply_on_text_left func rename verbose s self
      else if mode = ''right'' then apply_on_text_right func rename verbose s self
      else (Inl ValueError, s))"

definition apply_on_text ::
  "(val \<Rightarrow> error + val) \<Rightarrow> string \<Rightarrow> rename_arg \<Rightarrow> bool \<Rightarrow> store \<Rightarrow> nat \<Rightarrow> bool \<Rightarrow> (error + nat option) \<times> store" where
  "apply_on_text func mode rename verbose = optional_inplace (apply_on_text_body func mode rename verbose)"

text \<open>
  \<^verbatim>\<open>append_text_length\<close> applies the built-in \<^verbatim>\<open>len\<close>, in place, inside its own
  optional copy. \<^verbatim>\<open>len\<close> of a number raises \<^verbatim>\<open>TypeError\<close>.
\<close>

definition py_len :: "val \<Rightarrow> error + val" where
  "py_len v = (case v of StrV t \<Rightarrow> Inr (IntV (int (length t))) | _ \<Rightarrow> Inl TypeError)"

definition append_text_length_body :: "store \<Rightarrow> nat \<Rightarrow> (error + unit) \<times> store" where
  "append_text_length_body s self =
     (case apply_on_text py_len ''both'' (RenameBoth ''length_left'' ''length_right'') True s self True of
        (Inl e, s1) \<Rightarrow> (Inl e, s1)
      | (Inr r, s1) \<Rightarrow> (Inr (), s1))"

definition append_text_length :: "store \<Rightarrow> nat \<Rightarrow> bool \<Rightarrow> (error + nat option) \<times> store" where
  "append_text_length = optional_inplace append_text_length_body"

section \<open>Persistence: \<^verbatim>\<open>save\<close> and \<^verbatim>\<open>load_data_pack\<close>\<close>

text \<open>
  The file system: a path is its list of components below the working directory, which
  always exists. A file holds either the pickle of a \<^verbatim>\<open>DataPack\<close> (the frame objects it
  reaches, each once, and the three references into them) or other bytes.
\<close>

type_synonym path = "string list"

datatype blob = Pickle "dataframe list" data_pack | Bytes string

datatype node = Dir | File blob

record filesystem =
  nodes :: "path \<Rightarrow> node option"

definition path_exists :: "path \<Rightarrow> filesystem \<Rightarrow> bool" where
  "path_exists p fs \<longleftrightarrow> p = [] \<or> nodes fs p \<noteq> None"

definition is_dir :: "path \<Rightarrow> filesystem \<Rightarrow> bool" where
  "is_dir p fs \<longleftrightarrow> p = [] \<or> nodes fs p = Some Dir"

definition is_file :: "path \<Rightarrow> filesystem \<Rightarrow> bool" where
  "is_file p fs \<longleftrightarrow> (case nodes fs p of Some (File b) \<Rightarrow> p \<noteq> [] | _ \<Rightarrow> False)"

text \<open>Some proper ancestor of the path is a regular file.\<close>

definition below_file :: "path \<Rightarrow> filesystem \<Rightarrow> bool" where
  "below_file p fs \<longleftrightarrow> list_ex (\<lambda>k. is_file (take k p) fs) [0..<length p]"

text \<open>Every entry of a file system lies in a directory.\<close>

definition fs_ok :: "filesystem \<Rightarrow> bool" where
  "fs_ok fs \<longleftrightarrow> (\<forall>p. nodes fs p \<noteq> None \<longrightarrow> is_dir (butlast p) fs)"

text \<open>
  \<^verbatim>\<open>Path.mkdir()\<close> with its defaults (\<^verbatim>\<open>parents=False, exist_ok=False\<close>), and
  \<^verbatim>\<open>open(path, 'wb')\<close> followed by the write of the whole content.
\<close>

definition mkdir :: "path \<Rightarrow> filesystem \<Rightarrow> error + filesystem" where
  "mkdir p fs =
     (if path_exists p fs then Inl FileExistsError
      else if below_file p fs then Inl NotADirectoryError
      else if \<not> path_exists (butlast p) fs then Inl FileNotFoundError
      else Inr (fs\<lparr>nodes := (nodes fs)(p \<mapsto> Dir)\<rparr>))"

definition write_file :: "path \<Rightarrow> blob \<Rightarrow> filesystem \<Rightarrow> error + filesystem" where
  "write_file p b fs =
     (if is_dir p fs then Inl IsADirectoryError
      else if below_file p fs then Inl NotADirectoryError
      else if \<not> path_exists (butlast p) fs then Inl FileNotFoundError
      else Inr (fs\<lparr>nodes := (nodes fs)(p \<mapsto> File b)\<rparr>))"

text \<open>
  \<^verbatim>\<open>dill.dump(self, file)\<close>: the frame objects reached from the attributes, each once,
  and the attributes as positions among them. \<^verbatim>\<open>dill.load\<close> builds the objects anew.
\<close>

definition position_in :: "nat \<Rightarrow> nat list \<Rightarrow> nat" where
  "position_in r rs = length (takeWhile (\<lambda>x. x \<noteq> r) rs)"

definition dump :: "store \<Rightarrow> nat \<Rightarrow> blob" where
  "dump s self =
     (let p = packs s ! self;
          refs = remdups [relation_ref p, left_ref p, right_ref p]
      in Pickle (map (\<lambda>r. frames s ! r) refs)
           \<lparr>relation_ref = position_in (relation_ref p) refs,
            left_ref = position_in (left_ref p) refs,
            right_ref = position_in (right_ref p) refs\<rparr>)"

definition DATA_FILENAME :: string where
  "DATA_FILENAME = ''data.dill''"

definition save :: "store \<Rightarrow> nat \<Rightarrow> path \<Rightarrow> filesystem \<Rightarrow> (error + unit) \<times> filesystem" where
  "save s self dirpath fs =
     (let data_file_path = dirpath @ [DATA_FILENAME] in
      if path_exists data_file_path fs then (Inl FileExistsError, fs)
      else (case (if \<not> path_exists dirpath fs then mkdir dirpath fs else Inr fs) of
              Inl e \<Rightarrow> (Inl e, fs)
            | Inr fs1 \<Rightarrow>
                (case write_file data_file_path (dump s self) fs1 of
                   Inl e \<Rightarrow> (Inl e, fs1)
                 | Inr fs2 \<Rightarrow> (Inr (), fs2))))"

definition load_data_pack :: "path \<Rightarrow> filesystem \<Rightarrow> store \<Rightarrow> (error + nat) \<times> store" where
  "load_data_pack dirpath fs s =
     (let data_file_path = dirpath @ [DATA_FILENAME] in
      if below_file data_file_path fs then (Inl NotADirectoryError, s)
      else (case nodes fs data_file_path of
              None \<Rightarrow> (Inl FileNotFoundError, s)
            | Some Dir \<Rightarrow> (Inl IsADirectoryError, s)
            | Some (File (Bytes t)) \<Rightarrow> (Inl UnpicklingError, s)
            | Some (File (Pickle fr p)) \<Rightarrow>
                (let base = length (frames s)
                 in (Inr (length (packs s)),
                     s\<lparr>frames := frames s @ fr,
                       packs := packs s @ [\<lparr>relation_ref = base + relation_ref p,
                                            left_ref = base + left_ref p,
                                            right_ref = base + right_ref p\<rparr>]\<rparr>))))"

section \<open>The data model\<close>

text \<open>
  The cell of a row under a column name, the row of an entity table under an identifier,
  and the columns of the relation other than the two identifiers.
\<close>

definition cell :: "string list \<Rightarrow> string \<Rightarrow> val list \<Rightarrow> val" where
  "cell cs c r = (case column_position c cs of Some j \<Rightarrow> r ! j | None \<Rightarrow> NaN)"

definition row_of :: "dataframe \<Rightarrow> val \<Rightarrow> val list" where
  "row_of df l = rows df ! hd (label_positions l (index df))"

definition other_columns :: "dataframe \<Rightarrow> string list" where
  "other_columns rel = filter (\<lambda>c. c \<notin> set [''id_left'', ''id_right'']) (columns rel)"

text \<open>
  The joined row for the relation row at position \<open>p\<close>: the left entity with its
  identifier first, then the right entity likewise, then the other relation cells.
\<close>

definition joined_row :: "store \<Rightarrow> nat \<Rightarrow> nat \<Rightarrow> val list" where
  "joined_row s self p =
     (let rel = relation s self;
          r = rows rel ! p;
          id_left = cell (columns rel) ''id_left'' r;
          id_right = cell (columns rel) ''id_right'' r
      in (id_left # row_of (left s self) id_left) @
         (id_right # row_of (right s self) id_right) @
         map (\<lambda>c. cell (columns rel) c r) (other_columns rel))"

text \<open>
  The references of a \<^verbatim>\<open>DataPack\<close> object are live and its three frames are rectangular;
  the relation is numbered from zero (as the constructor's callers, \<^verbatim>\<open>__getitem__\<close> and
  \<^verbatim>\<open>shuffle\<close> leave it) and has the two identifier columns; identifiers are unique within
  each entity table; every identifier of the relation is a key of its entity table; and
  the names of the joined columns differ from each other.
\<close>

definition pack_ok :: "store \<Rightarrow> nat \<Rightarrow> bool" where
  "pack_ok s self \<longleftrightarrow>
     store_ok s \<and> self < length (packs s) \<and>
     frame_ok (relation s self) \<and> frame_ok (left s self) \<and> frame_ok (right s self)"

definition numbered_from_zero :: "dataframe \<Rightarrow> bool" where
  "numbered_from_zero df \<longleftrightarrow> index df = range_index (length (rows df))"

definition has_id_columns :: "dataframe \<Rightarrow> bool" where
  "has_id_columns rel \<longleftrightarrow> ''id_left'' \<in> set (columns rel) \<and> ''id_right'' \<in> set (columns rel)"

definition unique_identifiers :: "store \<Rightarrow> nat \<Rightarrow> bool" where
  "unique_identifiers s self \<longleftrightarrow> distinct (index (left s self)) \<and> distinct (index (right s self))"

definition referential_integrity :: "store \<Rightarrow> nat \<Rightarrow> bool" where
  "referential_integrity s self \<longleftrightarrow>
     list_all (\<lambda>r. cell (columns (relation s self)) ''id_left'' r \<in> set (index (left s self)) \<and>
                   cell (columns (relation s self)) ''id_right'' r \<in> set (index (right s self)))
       (rows (relation s self))"

definition joined_columns :: "store \<Rightarrow> nat \<Rightarrow> string list" where
  "joined_columns s self =
     (index_column_name (left s self) # columns (left s self)) @
     (index_column_name (right s self) # columns (right s self)) @
     other_columns (relation s self)"

definition well_formed :: "store \<Rightarrow> nat \<Rightarrow> bool" where
  "well_formed s self \<longleftrightarrow>
     pack_ok s self \<and> numbered_from_zero (relation s self) \<and> has_id_columns (relation s self) \<and>
     unique_identifiers s self \<and> referential_integrity s self \<and> distinct (joined_columns s self)"

definition valid_positions :: "int list \<Rightarrow> nat \<Rightarrow> bool" where
  "valid_positions idx n \<longleftrightarrow> list_all (\<lambda>i. 0 \<le> i \<and> i < int n) idx"

text \<open>The relation rows at the requested positions, in the order requested.\<close>

definition selected_rows :: "store \<Rightarrow> nat \<Rightarrow> int list \<Rightarrow> val list list" where
  "selected_rows s self idx = map (\<lambda>i. rows (relation s self) ! nat i) idx"

text \<open>The store after \<^verbatim>\<open>__getitem__\<close> has built its result from three new frames.\<close>

definition subset_store :: "store \<Rightarrow> dataframe \<Rightarrow> dataframe \<Rightarrow> dataframe \<Rightarrow> store" where
  "subset_store s rel' l' r' =
     s\<lparr>frames := frames s @ [l', r', rel'],
       packs := packs s @ [\<lparr>relation_ref = length (frames s) + 2, left_ref = length (frames s),
                            right_ref = length (frames s) + 1\<rparr>]\<rparr>"

text \<open>Every object of the first store is in the second store, as it was.\<close>

definition unchanged :: "store \<Rightarrow> store \<Rightarrow> bool" where
  "unchanged s s' \<longleftrightarrow>
     take (length (frames s)) (frames s') = frames s \<and>
     take (length (packs s)) (packs s') = packs s"

text \<open>The store after a new frame has been bound to \<^verbatim>\<open>self._relation\<close>.\<close>

definition rebound :: "store \<Rightarrow> nat \<Rightarrow> dataframe \<Rightarrow> store" where
  "rebound s self df = set_relation self (length (frames s)) (s\<lparr>frames := frames s @ [df]\<rparr>)"

text \<open>A transformation for the examples: every text becomes the same one.\<close>

definition mask_text :: "val \<Rightarrow> error + val" where
  "mask_text v = Inr (StrV ''X'')"

text \<open>The relation without its label column, as \<^verbatim>\<open>drop(columns='label')\<close> returns it.\<close>

definition without_label :: "dataframe \<Rightarrow> dataframe" where
  "without_label df =
     df\<lparr>columns := filter (\<lambda>x. x \<noteq> ''label'') (columns df),
        rows := map (drop_cells ''label'' (columns df)) (rows df)\<rparr>"

text \<open>The column of a frame under a name, top to bottom.\<close>

definition column_values :: "dataframe \<Rightarrow> string \<Rightarrow> val list" where
  "column_values g c = map (cell (columns g) c) (rows g)"

text \<open>The file system with nothing but the working directory.\<close>

definition empty_fs :: filesystem where
  "empty_fs = \<lparr>nodes = (\<lambda>p. None)\<rparr>"

section \<open>The running example\<close>

text \<open>
  The tables of the class docstring in the layout the library's loaders produce: the
  entity tables are indexed by their identifier, the relation is numbered from zero.
\<close>

definition example_left :: dataframe where
  "example_left = \<lparr>index_name = Some ''id_left'', index = [StrV ''qid1'', StrV ''qid2''],
     columns = [''text_left''], rows = [[StrV ''query 1''], [StrV ''query 2'']]\<rparr>"

definition example_right :: dataframe where
  "example_right = \<lparr>index_name = Some ''id_right'', index = [StrV ''did1'', StrV ''did2''],
     columns = [''text_right''], rows = [[StrV ''document 1''], [StrV ''document 2'']]\<rparr>"

definition example_relation :: dataframe where
  "example_relation = \<lparr>index_name = None, index = [IntV 0, IntV 1],
     columns = [''id_left'', ''id_right'', ''label''],
     rows = [[StrV ''qid1'', StrV ''did1'', IntV 1], [StrV ''qid2'', StrV ''did2'', IntV 1]]\<rparr>"

definition example_store :: store where
  "example_store = \<lparr>frames = [example_relation, example_left, example_right],
     packs = [\<lparr>relation_ref = 0, left_ref = 1, right_ref = 2\<rparr>]\<rparr>"

text \<open>
  The example after \<^verbatim>\<open>apply_on_text(len, mode='left', rename='text_right', inplace=True)\<close>:
  the left table has a column \<open>text_right\<close>, as the right table has.
\<close>

definition clash_store :: store where
  "clash_store = snd (apply_on_text py_len ''left'' (RenameTo ''text_right'') True example_store 0 True)"

text \<open>
  The example with the rows of the relation labelled 10 and 11, and labelled 1 and 0.
\<close>

definition shifted_store :: store where
  "shifted_store = example_store\<lparr>frames :=
     [example_relation\<lparr>index := [IntV 10, IntV 11]\<rparr>, example_left, example_right]\<rparr>"

definition swapped_store :: store where
  "swapped_store = example_store\<lparr>frames :=
     [example_relation\<lparr>index := [IntV 1, IntV 0]\<rparr>, example_left, example_right]\<rparr>"

text \<open>
  The example after \<^verbatim>\<open>apply_on_text(len, mode='left', rename='label', inplace=True)\<close>:
  the left table has a column \<open>label\<close>, as the relation has.
\<close>

definition label_left_store :: store where
  "label_left_store = snd (apply_on_text py_len ''left'' (RenameTo ''label'') True example_store 0 True)"

text \<open>The example with a number as the text of the second document.\<close>

definition mixed_store :: store where
  "mixed_store = example_store\<lparr>frames :=
     [example_relation, example_left, example_right\<lparr>rows := [[StrV ''document 1''], [IntV 7]]\<rparr>]\<rparr>"

section \<open>Basic facts\<close>

lemma and_then_simps [simp]: "and_then (Inr x) f = f x" "and_then (Inl e) f = Inl e"
  by (simp_all add: and_then_def)

lemma example_frames [simp]:
  "relation example_store 0 = example_relation"
  "left example_store 0 = example_left"
  "right example_store 0 = example_right"
  by (simp_all add: example_store_def relation_def left_def right_def)

lemma example_len [simp]: "len example_store 0 = 2"
  by (simp add: len_def example_relation_def)

lemma range_index_2 [simp]: "range_index 2 = [IntV 0, IntV 1]"
  by (simp add: range_index_def numeral_2_eq_2)

section \<open>Integer and slice indices\<close>

lemma negative_not_in_range_index: "i < 0 \<Longrightarrow> IntV i \<notin> set (range_index n)"
  by (auto simp: range_index_def)

lemma py_range_step1:
  assumes "a \<le> b"
  shows "py_range (int a) (int b) 1 = Inr (map int [a..<b])"
proof -
  have "map (\<lambda>k. int a + int k) [0..<b - a] = map int (map (\<lambda>k. k + a) [0..<b - a])"
    by (simp add: add.commute)
  also have "\<dots> = map int [a..<b]"
    using assms by (simp only: map_add_upt) simp
  finally show ?thesis
    using assms by (auto simp: py_range_def Let_def nat_diff_distrib')
qed

text \<open>A slice with a step other than zero always gives positions of the table.\<close>

lemma div_mult_le_int:
  fixes a b :: int
  assumes "0 < b"
  shows "(a div b) * b \<le> a"
proof -
  have "a div b * b + a mod b = a" by simp
  moreover have "0 \<le> a mod b" using assms by simp
  ultimately show ?thesis by linarith
qed

lemma py_range_bounds:
  assumes "py_range start stop step = Inr xs" "x \<in> set xs"
  shows "(0 < step \<longrightarrow> start \<le> x \<and> x < stop) \<and> (step < 0 \<longrightarrow> stop < x \<and> x \<le> start)"
proof -
  from assms(1) have st: "step \<noteq> 0" by (auto simp: py_range_def split: if_splits)
  let ?lo = "if 0 < step then start else stop"
  let ?hi = "if 0 < step then stop else start"
  let ?n = "if ?hi \<le> ?lo then 0 else nat ((?hi - ?lo - 1) div \<bar>step\<bar> + 1)"
  from assms(1) st have xs: "xs = map (\<lambda>k. start + int k * step) [0..<?n]"
    by (simp add: py_range_def Let_def)
  with assms(2) obtain k where k: "k < ?n" "x = start + int k * step"
    by auto
  then have gt: "?lo < ?hi" by (auto split: if_splits)
  with k(1) have "int k \<le> (?hi - ?lo - 1) div \<bar>step\<bar>"
    by (simp split: if_splits)
  moreover have "0 < \<bar>step\<bar>" using st by simp
  ultimately have "int k * \<bar>step\<bar> \<le> ((?hi - ?lo - 1) div \<bar>step\<bar>) * \<bar>step\<bar>"
    by (intro mult_right_mono) simp_all
  also have "\<dots> \<le> ?hi - ?lo - 1"
    using \<open>0 < \<bar>step\<bar>\<close> by (rule div_mult_le_int)
  finally have b: "int k * \<bar>step\<bar> \<le> ?hi - ?lo - 1" .
  have nn: "0 \<le> int k * \<bar>step\<bar>" by simp
  show ?thesis
  proof (cases "0 < step")
    case True
    with b nn k(2) show ?thesis by simp
  next
    case False
    with st have neg: "step < 0" by simp
    then have "int k * \<bar>step\<bar> = - (int k * step)" by simp
    with b nn k(2) neg show ?thesis by simp
  qed
qed

lemma slice_indices_bounds:
  assumes "slice_indices start stop step (int n) = Inr (s, e, st)"
  shows "st \<noteq> 0 \<and> (0 < st \<longrightarrow> 0 \<le> s \<and> e \<le> int n) \<and> (st < 0 \<longrightarrow> s \<le> int n - 1 \<and> - 1 \<le> e)"
  using assms
  by (auto simp: slice_indices_def Let_def split: if_splits option.splits)

lemma slice_positions_valid:
  assumes "convert_to_list_index (SliceIndex start stop step) n = Inr idx"
  shows "valid_positions idx n"
proof -
  from assms obtain s e st where
    si: "slice_indices start stop step (int n) = Inr (s, e, st)" and pr: "py_range s e st = Inr idx"
    by (cases "slice_indices start stop step (int n)") auto
  have "0 \<le> x \<and> x < int n" if "x \<in> set idx" for x
    using py_range_bounds [OF pr that] slice_indices_bounds [OF si] by (cases "0 < st") auto
  then show ?thesis by (simp add: valid_positions_def list_all_iff)
qed

lemma slice_converts:
  assumes "step \<noteq> Some 0"
  shows "\<exists>idx. convert_to_list_index (SliceIndex start stop step) n = Inr idx"
proof -
  from assms obtain s e st where
    si: "slice_indices start stop step (int n) = Inr (s, e, st)" "st \<noteq> 0"
    by (cases step) (auto simp: slice_indices_def Let_def)
  then show ?thesis by (simp add: py_range_def Let_def)
qed

text \<open>
  C10. On a \<^verbatim>\<open>DataPack\<close> whose relation is numbered from zero, \<^verbatim>\<open>dp[i]\<close> with a
  negative integer \<open>i\<close> raises \<^verbatim>\<open>KeyError\<close> and changes nothing: the integer is wrapped
  into a list of one label, and no row carries a negative label. A negative bound of a
  slice is resolved against the length: \<^verbatim>\<open>dp[-k:]\<close> asks for the last \<open>k\<close> positions.
\<close>

theorem negative_integer_index_is_a_label:
  assumes "index (relation s self) = range_index (len s self)" and "i < 0"
  shows "getitem s self (IntIndex i) = (Inl KeyError, s) \<and>
         (\<forall>k. 0 < k \<and> k \<le> len s self \<longrightarrow>
            convert_to_list_index (SliceIndex (Some (- int k)) None None) (len s self)
              = Inr (map int [len s self - k..<len s self]))"
proof
  have "loc (map IntV [i]) (relation s self) = Inl KeyError"
    using assms negative_not_in_range_index [OF assms(2)] by (simp add: loc_def)
  then show "getitem s self (IntIndex i) = (Inl KeyError, s)"
    by (simp add: getitem_def getitem_frames_def)
next
  show "\<forall>k. 0 < k \<and> k \<le> len s self \<longrightarrow>
            convert_to_list_index (SliceIndex (Some (- int k)) None None) (len s self)
              = Inr (map int [len s self - k..<len s self])"
  proof (intro allI impI)
    fix k assume k: "0 < k \<and> k \<le> len s self"
    let ?n = "len s self"
    have "slice_indices (Some (- int k)) None None (int ?n) = Inr (int (?n - k), int ?n, 1)"
      using k by (simp add: slice_indices_def Let_def max_def)
    moreover have "py_range (int (?n - k)) (int ?n) 1 = Inr (map int [?n - k..<?n])"
      by (rule py_range_step1) simp
    ultimately show "convert_to_list_index (SliceIndex (Some (- int k)) None None) ?n
              = Inr (map int [?n - k..<?n])"
      by simp
  qed
qed

theorem negative_integer_index_is_a_label_witness:
  "getitem example_store 0 (IntIndex (- 1)) = (Inl KeyError, example_store) \<and>
   convert_to_list_index (SliceIndex (Some (- 1)) None None) 2 = Inr [1]"
proof -
  have h: "index (relation example_store 0) = range_index (len example_store 0)"
    by (simp add: example_relation_def)
  have "(- 1 :: int) < 0" by simp
  from negative_integer_index_is_a_label [OF h this]
  have a: "getitem example_store 0 (IntIndex (- 1)) = (Inl KeyError, example_store)"
    and b: "\<forall>k. 0 < k \<and> k \<le> len example_store 0 \<longrightarrow>
            convert_to_list_index (SliceIndex (Some (- int k)) None None) (len example_store 0)
              = Inr (map int [len example_store 0 - k..<len example_store 0])"
    by blast+
  from b have "convert_to_list_index (SliceIndex (Some (- int 1)) None None) 2
              = Inr (map int [2 - 1..<2])"
    by (metis example_len one_le_numeral zero_less_one)
  then have "convert_to_list_index (SliceIndex (Some (- 1)) None None) 2 = Inr [1]"
    by (simp add: upt_rec)
  with a show ?thesis by simp
qed

section \<open>Label lookup\<close>

lemma length_range_index [simp]: "length (range_index n) = n"
  by (simp add: range_index_def)

lemma nth_range_index [simp]: "i < n \<Longrightarrow> range_index n ! i = IntV (int i)"
  by (simp add: range_index_def)

lemma distinct_range_index [simp]: "distinct (range_index n)"
  by (simp add: range_index_def distinct_map inj_on_def)

lemma filter_eq_upt: "p < n \<Longrightarrow> filter (\<lambda>i. i = p) [0..<n] = [p]"
  by (induction n) (auto simp: less_Suc_eq)

lemma label_positions_distinct:
  assumes "distinct ix" "p < length ix"
  shows "label_positions (ix ! p) ix = [p]"
proof -
  have "filter (\<lambda>i. ix ! i = ix ! p) [0..<length ix] = filter (\<lambda>i. i = p) [0..<length ix]"
    using assms by (intro filter_cong) (auto simp: nth_eq_iff_index_eq)
  also have "\<dots> = [p]"
    using assms(2) by (rule filter_eq_upt)
  finally show ?thesis by (simp add: label_positions_def)
qed

lemma label_positions_member:
  assumes "distinct ix" "l \<in> set ix"
  shows "\<exists>p. p < length ix \<and> ix ! p = l \<and> label_positions l ix = [p]"
proof -
  from assms(2) obtain p where p: "p < length ix" "ix ! p = l"
    by (auto simp: in_set_conv_nth)
  with label_positions_distinct [OF assms(1) p(1)] show ?thesis by auto
qed

lemma positions_range:
  assumes "\<forall>i\<in>set idx. 0 \<le> i \<and> i < int n"
  shows "concat (map (\<lambda>l. label_positions l (range_index n)) (map IntV idx)) = map nat idx"
  using assms
proof (induction idx)
  case Nil
  then show ?case by simp
next
  case (Cons i idx)
  then have i: "nat i < n" "int (nat i) = i" by auto
  have "label_positions (range_index n ! nat i) (range_index n) = [nat i]"
    by (rule label_positions_distinct) (use i in simp_all)
  then have "label_positions (IntV i) (range_index n) = [nat i]"
    using i by simp
  with Cons show ?case by simp
qed

lemma labels_in_range:
  assumes "\<forall>i\<in>set idx. 0 \<le> i \<and> i < int n"
  shows "list_all (\<lambda>l. l \<in> set (range_index n)) (map IntV idx)"
proof -
  have "IntV i \<in> set (range_index n)" if "i \<in> set idx" for i
  proof -
    from that assms have "nat i < n" "int (nat i) = i" by auto
    then have "range_index n ! nat i = IntV i" by simp
    with \<open>nat i < n\<close> show ?thesis
      by (metis length_range_index nth_mem)
  qed
  then show ?thesis by (simp add: list_all_iff)
qed

lemma column_position_Some:
  assumes "c \<in> set cs"
  shows "\<exists>j. column_position c cs = Some j \<and> j < length cs \<and> cs ! j = c"
proof -
  from assms obtain k where k: "k < length cs" "cs ! k = c"
    by (auto simp: in_set_conv_nth)
  then have "k \<in> set (filter (\<lambda>j. cs ! j = c) [0..<length cs])" by simp
  then obtain j js where js: "filter (\<lambda>j. cs ! j = c) [0..<length cs] = j # js"
    by (cases "filter (\<lambda>j. cs ! j = c) [0..<length cs]") auto
  then have "j \<in> set (filter (\<lambda>j. cs ! j = c) [0..<length cs])" by simp
  then have "j < length cs" "cs ! j = c" by auto
  with js show ?thesis by (simp add: column_position_def)
qed

lemma column_position_None: "c \<notin> set cs \<Longrightarrow> column_position c cs = None"
proof -
  assume "c \<notin> set cs"
  then have "filter (\<lambda>j. cs ! j = c) [0..<length cs] = []"
    by (auto simp: filter_empty_conv)
  then show ?thesis by (simp add: column_position_def)
qed

lemma getcol_member:
  assumes "c \<in> set (columns df)"
  shows "getcol c df = Inr \<lparr>s_name = c, s_index = index df, s_values = map (cell (columns df) c) (rows df)\<rparr>"
proof -
  from column_position_Some [OF assms] obtain j where "column_position c (columns df) = Some j"
    by blast
  then show ?thesis by (simp add: getcol_def cell_def)
qed

lemma getcol_missing: "c \<notin> set (columns df) \<Longrightarrow> getcol c df = Inl KeyError"
  by (simp add: getcol_def column_position_None)

text \<open>Label lookup in a column of a frame whose rows are labelled by position.\<close>

lemma series_getitem_range:
  assumes "s_index sr = range_index n" "\<forall>i\<in>set idx. 0 \<le> i \<and> i < int n"
  shows "series_getitem (map IntV idx) sr =
    Inr (sr\<lparr>s_index := map (\<lambda>p. range_index n ! p) (map nat idx), s_values := map (\<lambda>p. s_values sr ! p) (map nat idx)\<rparr>)"
  using labels_in_range [OF assms(2)] positions_range [OF assms(2)] assms(1)
  by (simp add: series_getitem_def Let_def)

lemma loc_range:
  assumes "index df = range_index n" "\<forall>i\<in>set idx. 0 \<le> i \<and> i < int n"
  shows "loc (map IntV idx) df = Inr (take_rows (map nat idx) df)"
  using labels_in_range [OF assms(2)] positions_range [OF assms(2)] assms(1)
  by (simp add: loc_def)

lemma positions_distinct:
  assumes "distinct ix" "set ls \<subseteq> set ix"
  shows "concat (map (\<lambda>l. label_positions l ix) ls) = map (\<lambda>l. hd (label_positions l ix)) ls"
  using assms(2)
proof (induction ls)
  case Nil
  then show ?case by simp
next
  case (Cons l ls)
  then obtain p where "label_positions l ix = [p]"
    using label_positions_member [OF assms(1), of l] by auto
  with Cons show ?case by simp
qed

lemma loc_distinct:
  assumes "distinct (index df)" "set ls \<subseteq> set (index df)"
  shows "loc ls df = Inr (take_rows (map (\<lambda>l. hd (label_positions l (index df))) ls) df)"
  using positions_distinct [OF assms] assms(2)
  by (simp add: loc_def list_all_iff subset_iff)

lemma loc_missing: "\<not> set ls \<subseteq> set (index df) \<Longrightarrow> loc ls df = Inl KeyError"
  by (auto simp: loc_def list_all_iff)

lemma hd_label_positions:
  assumes "distinct ix" "l \<in> set ix"
  shows "hd (label_positions l ix) < length ix \<and> ix ! hd (label_positions l ix) = l"
  using label_positions_member [OF assms] by auto


lemma zip_range_index:
  assumes "length xs = k"
  shows "zip (range_index k) xs = map (\<lambda>i. (IntV (int i), xs ! i)) [0..<k]"
  using assms by (intro nth_equalityI) simp_all

lemma join_row_range:
  assumes "index b = range_index k" "i < k"
  shows "join_row b (IntV (int i), r) = [(IntV (int i), r @ rows b ! i)]"
proof -
  have "label_positions (range_index k ! i) (range_index k) = [i]"
    by (rule label_positions_distinct) (use assms in simp_all)
  then show ?thesis using assms by (simp add: join_row_def)
qed

lemma join_range:
  assumes "index a = range_index k" "length (rows a) = k" "index b = range_index k"
    and "set (columns a) \<inter> set (columns b) = {}"
  shows "join a b = Inr \<lparr>index_name = index_name a, index = range_index k,
           columns = columns a @ columns b,
           rows = map (\<lambda>i. rows a ! i @ rows b ! i) [0..<k]\<rparr>"
proof -
  have "map (join_row b) (zip (index a) (rows a)) =
        map (\<lambda>i. [(IntV (int i), rows a ! i @ rows b ! i)]) [0..<k]"
    using assms(1,2,3) by (simp add: zip_range_index join_row_range)
  then have "concat (map (join_row b) (zip (index a) (rows a))) =
        map (\<lambda>i. (IntV (int i), rows a ! i @ rows b ! i)) [0..<k]"
    by simp
  moreover have "\<not> list_ex (\<lambda>c. c \<in> set (columns b)) (columns a)"
    using assms(4) by (auto simp: list_ex_iff)
  ultimately show ?thesis
    by (simp add: join_def Let_def comp_def range_index_def)
qed

lemma join_relation_columns_ok:
  assumes rel: "index rel = range_index n" "length (rows rel) = n"
    and idx: "\<forall>i\<in>set idx. 0 \<le> i \<and> i < int n"
    and cs: "set cs \<subseteq> set (columns rel)"
    and j: "index joined = range_index (length idx)" "length (rows joined) = length idx"
    and disj: "distinct (columns joined @ filter (\<lambda>c. c \<notin> set [''id_left'', ''id_right'']) cs)"
  shows "\<exists>f. join_relation_columns rel (map IntV idx) cs joined = Inr f \<and>
           index_name f = index_name joined \<and>
           index f = range_index (length idx) \<and>
           columns f = columns joined @ filter (\<lambda>c. c \<notin> set [''id_left'', ''id_right'']) cs \<and>
           rows f = map (\<lambda>k. rows joined ! k @
                      map (\<lambda>c. cell (columns rel) c (rows rel ! nat (idx ! k)))
                        (filter (\<lambda>c. c \<notin> set [''id_left'', ''id_right'']) cs)) [0..<length idx]"
  using cs j disj
proof (induction cs arbitrary: joined)
  case Nil
  then show ?case by (auto intro!: nth_equalityI)
next
  case (Cons c cs)
  show ?case
  proof (cases "c \<notin> set [''id_left'', ''id_right'']")
    case False
    with Cons.prems have "\<exists>f. join_relation_columns rel (map IntV idx) cs joined = Inr f \<and>
           index_name f = index_name joined \<and>
           index f = range_index (length idx) \<and>
           columns f = columns joined @ filter (\<lambda>c. c \<notin> set [''id_left'', ''id_right'']) cs \<and>
           rows f = map (\<lambda>k. rows joined ! k @
                      map (\<lambda>c. cell (columns rel) c (rows rel ! nat (idx ! k)))
                        (filter (\<lambda>c. c \<notin> set [''id_left'', ''id_right'']) cs)) [0..<length idx]"
      by (intro Cons.IH) auto
    with False show ?thesis by auto
  next
    case True
    let ?k = "length idx"
    from Cons.prems(1) have cin: "c \<in> set (columns rel)" by simp
    define sr where "sr = \<lparr>s_name = c, s_index = index rel, s_values = map (cell (columns rel) c) (rows rel)\<rparr>"
    have g: "getcol c rel = Inr sr"
      unfolding sr_def by (rule getcol_member [OF cin])
    define picked where "picked = sr\<lparr>s_index := map (\<lambda>p. range_index n ! p) (map nat idx),
                                     s_values := map (\<lambda>p. s_values sr ! p) (map nat idx)\<rparr>"
    have sg: "series_getitem (map IntV idx) sr = Inr picked"
      unfolding picked_def by (rule series_getitem_range) (use rel idx in \<open>simp_all add: sr_def\<close>)
    define b where "b = reset_index_drop (to_frame picked)"
    have b: "index b = range_index ?k" "columns b = [c]"
      "rows b = map (\<lambda>p. [s_values sr ! p]) (map nat idx)"
      by (simp_all add: b_def reset_index_drop_def to_frame_def picked_def sr_def comp_def)
    define joined' where "joined' = \<lparr>index_name = index_name joined, index = range_index ?k,
           columns = columns joined @ columns b,
           rows = map (\<lambda>i. rows joined ! i @ rows b ! i) [0..<?k]\<rparr>"
    have jn: "join joined b = Inr joined'"
      unfolding joined'_def
      by (rule join_range) (use Cons.prems True b in auto)
    have "\<exists>f. join_relation_columns rel (map IntV idx) cs joined' = Inr f \<and>
           index_name f = index_name joined' \<and>
           index f = range_index (length idx) \<and>
           columns f = columns joined' @ filter (\<lambda>c. c \<notin> set [''id_left'', ''id_right'']) cs \<and>
           rows f = map (\<lambda>k. rows joined' ! k @
                      map (\<lambda>c. cell (columns rel) c (rows rel ! nat (idx ! k)))
                        (filter (\<lambda>c. c \<notin> set [''id_left'', ''id_right'']) cs)) [0..<length idx]"
      by (intro Cons.IH) (use Cons.prems True b in \<open>auto simp: joined'_def\<close>)
    then obtain f where f: "join_relation_columns rel (map IntV idx) cs joined' = Inr f"
           "index_name f = index_name joined'"
           "index f = range_index (length idx)"
           "columns f = columns joined' @ filter (\<lambda>c. c \<notin> set [''id_left'', ''id_right'']) cs"
           "rows f = map (\<lambda>k. rows joined' ! k @
                      map (\<lambda>c. cell (columns rel) c (rows rel ! nat (idx ! k)))
                        (filter (\<lambda>c. c \<notin> set [''id_left'', ''id_right'']) cs)) [0..<length idx]"
      by blast
    have val: "s_values sr ! nat (idx ! k) = cell (columns rel) c (rows rel ! nat (idx ! k))"
      if "k < length idx" for k
    proof -
      from that idx have "nat (idx ! k) < n" by (auto simp: all_set_conv_all_nth)
      then show ?thesis using rel(2) by (simp add: sr_def)
    qed
    have rw: "rows joined' ! k = rows joined ! k @ [cell (columns rel) c (rows rel ! nat (idx ! k))]"
      if "k < length idx" for k
      using that val [OF that] by (simp add: joined'_def b)
    have "join_relation_columns rel (map IntV idx) (c # cs) joined = Inr f"
      using True g sg jn f(1) by (simp add: b_def)
    moreover have "index_name f = index_name joined"
      using f(2) by (simp add: joined'_def)
    moreover have "columns f = columns joined @ filter (\<lambda>c. c \<notin> set [''id_left'', ''id_right'']) (c # cs)"
      using f(4) True by (simp add: joined'_def b)
    moreover have "rows f = map (\<lambda>k. rows joined ! k @
                      map (\<lambda>c. cell (columns rel) c (rows rel ! nat (idx ! k)))
                        (filter (\<lambda>c. c \<notin> set [''id_left'', ''id_right'']) (c # cs))) [0..<length idx]"
      unfolding f(5) using True by (intro map_cong refl) (simp add: rw)
    ultimately show ?thesis using f(3) by blast
  qed
qed


lemma index_column_name_take_rows [simp]:
  "index_column_name (take_rows ps df) = index_column_name df"
  by (simp add: index_column_name_def take_rows_def)

lemma entity_frame:
  assumes "distinct (index df)" "set ls \<subseteq> set (index df)"
    and "index_column_name df \<notin> set (columns df)"
  shows "\<exists>g. and_then (loc ls df) reset_index = Inr g \<and> index_name g = None \<and>
           index g = range_index (length ls) \<and>
           columns g = index_column_name df # columns df \<and>
           rows g = map (\<lambda>l. l # row_of df l) ls"
proof -
  let ?ps = "map (\<lambda>l. hd (label_positions l (index df))) ls"
  have l: "loc ls df = Inr (take_rows ?ps df)"
    by (rule loc_distinct [OF assms(1,2)])
  have "zip (index (take_rows ?ps df)) (rows (take_rows ?ps df)) =
        map (\<lambda>l. (index df ! hd (label_positions l (index df)), row_of df l)) ls"
    by (simp add: take_rows_def zip_map_map zip_same_conv_map row_of_def comp_def)
  also have "\<dots> = map (\<lambda>l. (l, row_of df l)) ls"
    using hd_label_positions [OF assms(1)] assms(2) by (intro map_cong refl) auto
  finally have z: "zip (index (take_rows ?ps df)) (rows (take_rows ?ps df)) =
        map (\<lambda>l. (l, row_of df l)) ls" .
  have c: "columns (take_rows ?ps df) = columns df" "length (rows (take_rows ?ps df)) = length ls"
    by (simp_all add: take_rows_def)
  show ?thesis
    using assms(3) by (simp add: l reset_index_def Let_def z c comp_def)
qed

lemma view_getitem_ok:
  assumes wf: "well_formed s self"
    and conv: "convert_to_list_index ix (len s self) = Inr idx"
    and valid: "valid_positions idx (len s self)"
  shows "\<exists>f. view_getitem s (frame self) ix = Inr f \<and>
           columns f = joined_columns s self \<and>
           index f = range_index (length idx) \<and>
           rows f = map (\<lambda>i. joined_row s self (nat i)) idx"
proof -
  let ?rel = "relation s self" and ?l = "left s self" and ?r = "right s self"
  let ?n = "len s self"
  let ?cs = "columns ?rel"
  from wf have rel: "index ?rel = range_index ?n" "length (rows ?rel) = ?n"
    and ids: "''id_left'' \<in> set ?cs" "''id_right'' \<in> set ?cs"
    and uniq: "distinct (index ?l)" "distinct (index ?r)"
    and ri: "\<And>r. r \<in> set (rows ?rel) \<Longrightarrow> cell ?cs ''id_left'' r \<in> set (index ?l) \<and>
                                            cell ?cs ''id_right'' r \<in> set (index ?r)"
    and dist: "distinct (joined_columns s self)"
    by (auto simp: well_formed_def numbered_from_zero_def len_def has_id_columns_def
        unique_identifiers_def referential_integrity_def list_all_iff)
  from valid have idx: "\<forall>i\<in>set idx. 0 \<le> i \<and> i < int ?n"
    by (simp add: valid_positions_def list_all_iff)
  then have sel: "rows ?rel ! nat i \<in> set (rows ?rel)" if "i \<in> set idx" for i
    using that rel(2) by (intro nth_mem) auto
  have pick: "and_then (getcol c ?rel) (series_getitem (map IntV idx)) =
      Inr \<lparr>s_name = c, s_index = map (\<lambda>p. range_index ?n ! p) (map nat idx),
           s_values = map (\<lambda>i. cell ?cs c (rows ?rel ! nat i)) idx\<rparr>" if "c \<in> set ?cs" for c
  proof -
    have "map (\<lambda>p. map (cell ?cs c) (rows ?rel) ! p) (map nat idx) =
          map (\<lambda>i. cell ?cs c (rows ?rel ! nat i)) idx"
      unfolding map_map using idx rel(2) by (intro map_cong refl) auto
    then show ?thesis
      using series_getitem_range [of "\<lparr>s_name = c, s_index = index ?rel,
          s_values = map (cell ?cs c) (rows ?rel)\<rparr>" ?n idx] rel(1) idx
      by (simp add: getcol_member [OF that])
  qed
  let ?lids = "map (\<lambda>i. cell ?cs ''id_left'' (rows ?rel ! nat i)) idx"
  let ?rids = "map (\<lambda>i. cell ?cs ''id_right'' (rows ?rel ! nat i)) idx"
  have "\<exists>g. and_then (loc ?lids ?l) reset_index = Inr g \<and> index_name g = None \<and>
           index g = range_index (length ?lids) \<and>
           columns g = index_column_name ?l # columns ?l \<and>
           rows g = map (\<lambda>l. l # row_of ?l l) ?lids"
    by (rule entity_frame) (use uniq ri sel dist in \<open>auto simp: joined_columns_def\<close>)
  then obtain gl where gl: "and_then (loc ?lids ?l) reset_index = Inr gl"
    "index gl = range_index (length idx)" "columns gl = index_column_name ?l # columns ?l"
    "rows gl = map (\<lambda>l. l # row_of ?l l) ?lids"
    by auto
  have "\<exists>g. and_then (loc ?rids ?r) reset_index = Inr g \<and> index_name g = None \<and>
           index g = range_index (length ?rids) \<and>
           columns g = index_column_name ?r # columns ?r \<and>
           rows g = map (\<lambda>l. l # row_of ?r l) ?rids"
    by (rule entity_frame) (use uniq ri sel dist in \<open>auto simp: joined_columns_def\<close>)
  then obtain gr where gr: "and_then (loc ?rids ?r) reset_index = Inr gr"
    "index gr = range_index (length idx)" "columns gr = index_column_name ?r # columns ?r"
    "rows gr = map (\<lambda>l. l # row_of ?r l) ?rids"
    by auto
  define j0 where "j0 = \<lparr>index_name = index_name gl, index = range_index (length idx),
           columns = columns gl @ columns gr,
           rows = map (\<lambda>i. rows gl ! i @ rows gr ! i) [0..<length idx]\<rparr>"
  have jn: "join gl gr = Inr j0"
    unfolding j0_def
    by (rule join_range) (use gl gr dist in \<open>auto simp: joined_columns_def\<close>)
  have "\<exists>f. join_relation_columns ?rel (map IntV idx) ?cs j0 = Inr f \<and>
           index_name f = index_name j0 \<and>
           index f = range_index (length idx) \<and>
           columns f = columns j0 @ filter (\<lambda>c. c \<notin> set [''id_left'', ''id_right'']) ?cs \<and>
           rows f = map (\<lambda>k. rows j0 ! k @
                      map (\<lambda>c. cell ?cs c (rows ?rel ! nat (idx ! k)))
                        (filter (\<lambda>c. c \<notin> set [''id_left'', ''id_right'']) ?cs)) [0..<length idx]"
    by (rule join_relation_columns_ok [OF rel idx])
       (use dist gl gr in \<open>simp_all add: j0_def joined_columns_def other_columns_def\<close>)
  then obtain f where f: "join_relation_columns ?rel (map IntV idx) ?cs j0 = Inr f"
           "index f = range_index (length idx)"
           "columns f = columns j0 @ filter (\<lambda>c. c \<notin> set [''id_left'', ''id_right'']) ?cs"
           "rows f = map (\<lambda>k. rows j0 ! k @
                      map (\<lambda>c. cell ?cs c (rows ?rel ! nat (idx ! k)))
                        (filter (\<lambda>c. c \<notin> set [''id_left'', ''id_right'']) ?cs)) [0..<length idx]"
    by blast
  have and_then_Inr: "\<exists>x. a = Inr x \<and> g x = Inr y" if "and_then a g = Inr y"
    for a :: "error + 'a" and g :: "'a \<Rightarrow> error + 'b" and y
    using that by (cases a) simp_all
  from and_then_Inr [OF pick [OF ids(1)]] obtain col_left where
    cl: "getcol ''id_left'' ?rel = Inr col_left" and
    "series_getitem (map IntV idx) col_left = Inr \<lparr>s_name = ''id_left'',
        s_index = map (\<lambda>p. range_index ?n ! p) (map nat idx), s_values = ?lids\<rparr>"
    by blast
  then obtain ids_left where il: "series_getitem (map IntV idx) col_left = Inr ids_left"
    "s_values ids_left = ?lids" by simp
  from and_then_Inr [OF pick [OF ids(2)]] obtain col_right where
    cr: "getcol ''id_right'' ?rel = Inr col_right" and
    "series_getitem (map IntV idx) col_right = Inr \<lparr>s_name = ''id_right'',
        s_index = map (\<lambda>p. range_index ?n ! p) (map nat idx), s_values = ?rids\<rparr>"
    by blast
  then obtain ids_right where ir: "series_getitem (map IntV idx) col_right = Inr ids_right"
    "s_values ids_right = ?rids" by simp
  from and_then_Inr [OF gl(1)] obtain left_sel where
    ls: "loc ?lids ?l = Inr left_sel" "reset_index left_sel = Inr gl" by blast
  from and_then_Inr [OF gr(1)] obtain right_sel where
    rs: "loc ?rids ?r = Inr right_sel" "reset_index right_sel = Inr gr" by blast
  have run: "view_getitem s (frame self) ix = Inr f"
    by (simp add: view_getitem_def frame_def Let_def conv cl il cr ir ls rs jn f(1))
  have cols: "columns f = joined_columns s self"
    using f(3) gl gr by (simp add: j0_def joined_columns_def other_columns_def)
  have "rows f = map (\<lambda>k. joined_row s self (nat (idx ! k))) [0..<length idx]"
    unfolding f(4)
    by (intro map_cong refl) (simp add: j0_def gl gr joined_row_def Let_def other_columns_def)
  also have "\<dots> = map (\<lambda>i. joined_row s self (nat i)) idx"
    by (intro nth_equalityI) simp_all
  finally show ?thesis using run cols f(2) by blast
qed

section \<open>The joined frame\<close>

lemma example_wf: "well_formed example_store 0"
  by code_simp

lemma example_full_frame:
  "view_call example_store (frame 0) =
     Inr \<lparr>index_name = None, index = [IntV 0, IntV 1],
          columns = [''id_left'', ''text_left'', ''id_right'', ''text_right'', ''label''],
          rows = [[StrV ''qid1'', StrV ''query 1'', StrV ''did1'', StrV ''document 1'', IntV 1],
                  [StrV ''qid2'', StrV ''query 2'', StrV ''did2'', StrV ''document 2'', IntV 1]]\<rparr>"
  by code_simp

lemma convert_full_slice:
  "convert_to_list_index (SliceIndex None None None) n = Inr (map int [0..<n])"
  using py_range_step1 [of 0 n] by (simp add: slice_indices_def)

lemma valid_positions_all: "valid_positions (map int [0..<n]) n"
  by (simp add: valid_positions_def list_all_iff)


lemma view_call_ok:
  assumes "well_formed s self"
  shows "\<exists>g. view_call s (frame self) = Inr g \<and> columns g = joined_columns s self \<and>
           index g = range_index (len s self) \<and>
           rows g = map (joined_row s self) [0..<len s self]"
  using view_getitem_ok [OF assms convert_full_slice valid_positions_all]
  by (simp add: view_call_def comp_def)

text \<open>
  C1, as the code has it. For a well-formed \<^verbatim>\<open>DataPack\<close>, the names of whose joined
  columns differ from each other, and valid positions \<open>idx\<close>, the slice of the frame
  view has one row per requested position, in the requested order: the matched left
  entity with its identifier, then the matched right entity with its identifier, then
  the relation cells other than the two identifiers; the rows are numbered afresh. The
  full frame has as many rows as the \<^verbatim>\<open>DataPack\<close>. For the two queries and two documents
  of the example the full frame has the columns \<open>id_left, text_left, id_right,
  text_right, label\<close> and the first row \<open>qid1, query 1, did1, document 1, 1\<close>.
\<close>

theorem frame_view_slice:
  assumes "well_formed s self"
    and "convert_to_list_index ix (len s self) = Inr idx"
    and "valid_positions idx (len s self)"
  shows "(\<exists>f. view_getitem s (frame self) ix = Inr f \<and>
            columns f = joined_columns s self \<and>
            index f = range_index (length idx) \<and>
            rows f = map (\<lambda>i. joined_row s self (nat i)) idx) \<and>
         (\<exists>g. view_call s (frame self) = Inr g \<and>
            columns g = joined_columns s self \<and> length (rows g) = len s self) \<and>
         view_call example_store (frame 0) =
           Inr \<lparr>index_name = None, index = [IntV 0, IntV 1],
                columns = [''id_left'', ''text_left'', ''id_right'', ''text_right'', ''label''],
                rows = [[StrV ''qid1'', StrV ''query 1'', StrV ''did1'', StrV ''document 1'', IntV 1],
                        [StrV ''qid2'', StrV ''query 2'', StrV ''did2'', StrV ''document 2'', IntV 1]]\<rparr>"
proof (intro conjI)
  show "\<exists>f. view_getitem s (frame self) ix = Inr f \<and>
            columns f = joined_columns s self \<and>
            index f = range_index (length idx) \<and>
            rows f = map (\<lambda>i. joined_row s self (nat i)) idx"
    by (rule view_getitem_ok [OF assms])
next
  from view_call_ok [OF assms(1)] obtain g where "view_call s (frame self) = Inr g"
    "columns g = joined_columns s self" "rows g = map (joined_row s self) [0..<len s self]"
    by blast
  then show "\<exists>g. view_call s (frame self) = Inr g \<and>
            columns g = joined_columns s self \<and> length (rows g) = len s self"
    by simp
next
  show "view_call example_store (frame 0) =
           Inr \<lparr>index_name = None, index = [IntV 0, IntV 1],
                columns = [''id_left'', ''text_left'', ''id_right'', ''text_right'', ''label''],
                rows = [[StrV ''qid1'', StrV ''query 1'', StrV ''did1'', StrV ''document 1'', IntV 1],
                        [StrV ''qid2'', StrV ''query 2'', StrV ''did2'', StrV ''document 2'', IntV 1]]\<rparr>"
    by (rule example_full_frame)
qed

theorem frame_view_slice_witness:
  "\<exists>f. view_getitem example_store (frame 0) (ArrayIndex [1, 0, 1]) = Inr f \<and>
     columns f = [''id_left'', ''text_left'', ''id_right'', ''text_right'', ''label''] \<and>
     index f = [IntV 0, IntV 1, IntV 2] \<and>
     rows f = [[StrV ''qid2'', StrV ''query 2'', StrV ''did2'', StrV ''document 2'', IntV 1],
               [StrV ''qid1'', StrV ''query 1'', StrV ''did1'', StrV ''document 1'', IntV 1],
               [StrV ''qid2'', StrV ''query 2'', StrV ''did2'', StrV ''document 2'', IntV 1]]"
proof -
  have c: "convert_to_list_index (ArrayIndex [1, 0, 1]) (len example_store 0) = Inr [1, 0, 1]"
    by simp
  have v: "valid_positions [1, 0, 1] (len example_store 0)"
    by (simp add: valid_positions_def)
  have j: "joined_columns example_store 0 =
      [''id_left'', ''text_left'', ''id_right'', ''text_right'', ''label'']"
    by code_simp
  have r: "joined_row example_store 0 0 =
      [StrV ''qid1'', StrV ''query 1'', StrV ''did1'', StrV ''document 1'', IntV 1]"
    "joined_row example_store 0 (Suc 0) =
      [StrV ''qid2'', StrV ''query 2'', StrV ''did2'', StrV ''document 2'', IntV 1]"
    by code_simp+
  have i: "range_index (Suc (Suc (Suc 0))) = [IntV 0, IntV 1, IntV 2]"
    by code_simp
  from frame_view_slice [OF example_wf c v] show ?thesis
    by (simp add: j r i)
qed

lemma clash_store_eq:
  "apply_on_text py_len ''left'' (RenameTo ''text_right'') True example_store 0 True = (Inr None, clash_store)"
  "left clash_store 0 = \<lparr>index_name = Some ''id_left'', index = [StrV ''qid1'', StrV ''qid2''],
     columns = [''text_left'', ''text_right''],
     rows = [[StrV ''query 1'', IntV 7], [StrV ''query 2'', IntV 7]]\<rparr>"
  "right clash_store 0 = example_right" "relation clash_store 0 = example_relation"
  unfolding clash_store_def by code_simp+

text \<open>
  Without the condition on the names the slice can fail: after a transformation of the
  left text has been stored under the name \<open>text_right\<close>, every invariant of the data
  model still holds, the position \<open>0\<close> is valid, and the join of the two entity frames
  raises \<^verbatim>\<open>ValueError\<close>.
\<close>

theorem frame_view_name_clash_counterexample:
  "pack_ok clash_store 0 \<and> numbered_from_zero (relation clash_store 0) \<and>
   has_id_columns (relation clash_store 0) \<and> unique_identifiers clash_store 0 \<and>
   referential_integrity clash_store 0 \<and>
   convert_to_list_index (IntIndex 0) (len clash_store 0) = Inr [0] \<and>
   valid_positions [0] (len clash_store 0) \<and>
   view_getitem clash_store (frame 0) (IntIndex 0) = Inl ValueError \<and>
   view_call clash_store (frame 0) = Inl ValueError"
  unfolding clash_store_def by code_simp

section \<open>Subsetting\<close>

lemma first_occurrences_set: "set (first_occurrences seen xs) = set xs - set seen"
  by (induction xs arbitrary: seen) auto

lemma first_occurrences_distinct: "distinct (first_occurrences seen xs)"
  by (induction xs arbitrary: seen) (auto simp: first_occurrences_set)

lemma label_positions_nonempty: "l \<in> set ix \<Longrightarrow> label_positions l ix \<noteq> []"
  by (auto simp: label_positions_def filter_empty_conv in_set_conv_nth)

lemma label_positions_nth: "p \<in> set (label_positions l ix) \<Longrightarrow> ix ! p = l \<and> p < length ix"
  by (auto simp: label_positions_def)

lemma loc_index_set:
  assumes "set ls \<subseteq> set (index df)"
  shows "\<exists>g. loc ls df = Inr g \<and> set (index g) = set ls \<and> columns g = columns df \<and>
           index_name g = index_name df"
proof -
  let ?ps = "concat (map (\<lambda>l. label_positions l (index df)) ls)"
  have "set (map (\<lambda>p. index df ! p) ?ps) = set ls"
  proof (intro set_eqI iffI)
    fix x assume "x \<in> set (map (\<lambda>p. index df ! p) ?ps)"
    then obtain l p where "l \<in> set ls" "p \<in> set (label_positions l (index df))" "x = index df ! p"
      by auto
    then show "x \<in> set ls" using label_positions_nth by metis
  next
    fix x assume x: "x \<in> set ls"
    with assms have "label_positions x (index df) \<noteq> []"
      by (intro label_positions_nonempty) auto
    then obtain p where p: "p \<in> set (label_positions x (index df))"
      by (cases "label_positions x (index df)") auto
    then have "index df ! p = x" using label_positions_nth by metis
    with x p show "x \<in> set (map (\<lambda>p. index df ! p) ?ps)" by force
  qed
  then show ?thesis
    using assms by (simp add: loc_def list_all_iff subset_iff take_rows_def)
qed

lemma loc_distinct_entity:
  assumes "distinct (index df)" "set ls \<subseteq> set (index df)"
  shows "\<exists>g. loc ls df = Inr g \<and> index g = ls \<and> rows g = map (row_of df) ls \<and>
           columns g = columns df \<and> index_name g = index_name df"
proof -
  have "map (\<lambda>l. index df ! hd (label_positions l (index df))) ls = map (\<lambda>l. l) ls"
    using hd_label_positions [OF assms(1)] assms(2) by (intro map_cong refl) auto
  then show ?thesis
    by (simp add: loc_distinct [OF assms] take_rows_def comp_def row_of_def)
qed

lemma selected_rows_subset:
  assumes "valid_positions idx (length (rows (relation s self)))"
  shows "set (selected_rows s self idx) \<subseteq> set (rows (relation s self))"
proof
  fix r assume "r \<in> set (selected_rows s self idx)"
  then obtain i where i: "i \<in> set idx" "r = rows (relation s self) ! nat i"
    by (auto simp: selected_rows_def)
  with assms have "nat i < length (rows (relation s self))"
    by (auto simp: valid_positions_def list_all_iff)
  with i show "r \<in> set (rows (relation s self))" by simp
qed

lemma getcol_selected:
  assumes "c \<in> set (columns rel)"
  shows "getcol c (reset_index_drop (take_rows ps rel)) =
     Inr \<lparr>s_name = c, s_index = range_index (length ps),
          s_values = map (cell (columns rel) c) (map (\<lambda>p. rows rel ! p) ps)\<rparr>"
proof -
  have "columns (reset_index_drop (take_rows ps rel)) = columns rel"
    "rows (reset_index_drop (take_rows ps rel)) = map (\<lambda>p. rows rel ! p) ps"
    "index (reset_index_drop (take_rows ps rel)) = range_index (length ps)"
    by (simp_all add: reset_index_drop_def take_rows_def)
  with getcol_member [of c "reset_index_drop (take_rows ps rel)"] assms show ?thesis
    by simp
qed

lemma getitem_frames_ok:
  assumes nz: "numbered_from_zero (relation s self)"
    and ids: "has_id_columns (relation s self)"
    and ri: "referential_integrity s self"
    and conv: "convert_to_list_index ix (len s self) = Inr idx"
    and valid: "valid_positions idx (len s self)"
  shows "\<exists>l' r'. getitem_frames s self ix =
             Inr (reset_index_drop (take_rows (map nat idx) (relation s self)), l', r') \<and>
           loc (first_occurrences [] (map (cell (columns (relation s self)) ''id_left'') (selected_rows s self idx)))
               (left s self) = Inr l' \<and>
           loc (first_occurrences [] (map (cell (columns (relation s self)) ''id_right'') (selected_rows s self idx)))
               (right s self) = Inr r'"
proof -
  let ?rel = "relation s self" and ?n = "len s self"
  let ?cs = "columns ?rel"
  let ?ul = "first_occurrences [] (map (cell ?cs ''id_left'') (selected_rows s self idx))"
  let ?ur = "first_occurrences [] (map (cell ?cs ''id_right'') (selected_rows s self idx))"
  from nz have rel: "index ?rel = range_index ?n"
    by (simp add: numbered_from_zero_def len_def)
  from valid have idx: "\<forall>i\<in>set idx. 0 \<le> i \<and> i < int ?n"
    by (simp add: valid_positions_def list_all_iff)
  have l: "loc (map IntV idx) ?rel = Inr (take_rows (map nat idx) ?rel)"
    by (rule loc_range [OF rel idx])
  have sub: "set (selected_rows s self idx) \<subseteq> set (rows ?rel)"
    by (rule selected_rows_subset) (use valid in \<open>simp add: len_def\<close>)
  have sel: "map (\<lambda>p. rows ?rel ! p) (map nat idx) = selected_rows s self idx"
    by (simp add: selected_rows_def comp_def)
  from ids have inl: "''id_left'' \<in> set ?cs" and inr: "''id_right'' \<in> set ?cs"
    by (simp_all add: has_id_columns_def)
  have gl: "getcol ''id_left'' (reset_index_drop (take_rows (map nat idx) ?rel)) =
       Inr \<lparr>s_name = ''id_left'', s_index = range_index (length (map nat idx)),
          s_values = map (cell ?cs ''id_left'') (selected_rows s self idx)\<rparr>"
    and gr: "getcol ''id_right'' (reset_index_drop (take_rows (map nat idx) ?rel)) =
       Inr \<lparr>s_name = ''id_right'', s_index = range_index (length (map nat idx)),
          s_values = map (cell ?cs ''id_right'') (selected_rows s self idx)\<rparr>"
    unfolding sel [symmetric] by (rule getcol_selected [OF inl], rule getcol_selected [OF inr])
  have "set ?ul \<subseteq> set (index (left s self))"
  proof
    fix x assume "x \<in> set ?ul"
    then obtain r where "r \<in> set (selected_rows s self idx)" "x = cell ?cs ''id_left'' r"
      by (auto simp: first_occurrences_set)
    with sub ri show "x \<in> set (index (left s self))"
      by (auto simp: referential_integrity_def list_all_iff)
  qed
  from loc_index_set [OF this] obtain l' where l': "loc ?ul (left s self) = Inr l'"
    by blast
  have "set ?ur \<subseteq> set (index (right s self))"
  proof
    fix x assume "x \<in> set ?ur"
    then obtain r where "r \<in> set (selected_rows s self idx)" "x = cell ?cs ''id_right'' r"
      by (auto simp: first_occurrences_set)
    with sub ri show "x \<in> set (index (right s self))"
      by (auto simp: referential_integrity_def list_all_iff)
  qed
  from loc_index_set [OF this] obtain r' where r': "loc ?ur (right s self) = Inr r'"
    by blast
  have "getitem_frames s self ix =
             Inr (reset_index_drop (take_rows (map nat idx) ?rel), l', r')"
    unfolding getitem_frames_def conv and_then_simps l Let_def gl gr unique_def
    by (simp add: l' r')
  with l' r' show ?thesis by blast
qed

lemma getitem_store:
  assumes "getitem_frames s self ix = Inr (rel', l', r')"
  shows "getitem s self ix = (Inr (length (packs s)), subset_store s rel' l' r')"
  using assms by (simp add: getitem_def new_frame_def DataPack_def subset_store_def)

lemma subset_store_frames [simp]:
  "relation (subset_store s rel' l' r') (length (packs s)) = rel'"
  "left (subset_store s rel' l' r') (length (packs s)) = l'"
  "right (subset_store s rel' l' r') (length (packs s)) = r'"
  by (simp_all add: subset_store_def relation_def left_def right_def nth_append)

lemma getitem_result:
  assumes "numbered_from_zero (relation s self)"
    and "has_id_columns (relation s self)"
    and "referential_integrity s self"
    and "convert_to_list_index ix (len s self) = Inr idx"
    and "valid_positions idx (len s self)"
  shows "\<exists>l' r'. getitem s self ix =
             (Inr (length (packs s)),
              subset_store s (reset_index_drop (take_rows (map nat idx) (relation s self))) l' r') \<and>
           loc (first_occurrences [] (map (cell (columns (relation s self)) ''id_left'') (selected_rows s self idx)))
               (left s self) = Inr l' \<and>
           loc (first_occurrences [] (map (cell (columns (relation s self)) ''id_right'') (selected_rows s self idx)))
               (right s self) = Inr r'"
  using getitem_frames_ok [OF assms] getitem_store by blast

lemma selected_relation:
  "columns (reset_index_drop (take_rows (map nat idx) rel)) = columns rel"
  "index (reset_index_drop (take_rows (map nat idx) rel)) = range_index (length idx)"
  "index_name (reset_index_drop (take_rows (map nat idx) rel)) = None"
  by (simp_all add: reset_index_drop_def take_rows_def)

lemma selected_relation_rows:
  "rows (reset_index_drop (take_rows (map nat idx) (relation s self))) = selected_rows s self idx"
  by (simp add: reset_index_drop_def take_rows_def selected_rows_def comp_def)

text \<open>
  C2, as the code has it. For a \<^verbatim>\<open>DataPack\<close> whose relation is numbered from zero
  and has the two identifier columns, with unique identifiers in the entity tables and
  referential integrity, and valid positions \<open>idx\<close>, \<^verbatim>\<open>dp[idx]\<close> returns a new \<^verbatim>\<open>DataPack\<close> object whose three frames are new
  objects (the objects of the source store are all kept as they were). Its length is the
  number of positions; its relation holds the selected rows in the requested order,
  numbered from zero; its left table holds exactly the left identifiers of those rows,
  each once, in order of first occurrence, with the rows they had in the source; and so
  for the right table.
\<close>

theorem getitem_selects:
  assumes "numbered_from_zero (relation s self)"
    and "has_id_columns (relation s self)"
    and "unique_identifiers s self"
    and "referential_integrity s self"
    and "convert_to_list_index ix (len s self) = Inr idx"
    and "valid_positions idx (len s self)"
  shows "\<exists>q s'. getitem s self ix = (Inr q, s') \<and>
           q = length (packs s) \<and>
           take (length (packs s)) (packs s') = packs s \<and>
           take (length (frames s)) (frames s') = frames s \<and>
           distinct [relation_ref (packs s' ! q), left_ref (packs s' ! q), right_ref (packs s' ! q)] \<and>
           (\<forall>r \<in> set [relation_ref (packs s' ! q), left_ref (packs s' ! q), right_ref (packs s' ! q)].
              length (frames s) \<le> r \<and> r < length (frames s')) \<and>
           len s' q = length idx \<and>
           columns (relation s' q) = columns (relation s self) \<and>
           index (relation s' q) = range_index (length idx) \<and>
           rows (relation s' q) = selected_rows s self idx \<and>
           columns (left s' q) = columns (left s self) \<and>
           index (left s' q) =
             first_occurrences [] (map (cell (columns (relation s self)) ''id_left'') (selected_rows s self idx)) \<and>
           rows (left s' q) = map (row_of (left s self)) (index (left s' q)) \<and>
           columns (right s' q) = columns (right s self) \<and>
           index (right s' q) =
             first_occurrences [] (map (cell (columns (relation s self)) ''id_right'') (selected_rows s self idx)) \<and>
           rows (right s' q) = map (row_of (right s self)) (index (right s' q))"
proof -
  let ?rel' = "reset_index_drop (take_rows (map nat idx) (relation s self))"
  let ?ul = "first_occurrences [] (map (cell (columns (relation s self)) ''id_left'') (selected_rows s self idx))"
  let ?ur = "first_occurrences [] (map (cell (columns (relation s self)) ''id_right'') (selected_rows s self idx))"
  from getitem_result [OF assms(1,2,4,5,6)] obtain l' r' where
    g: "getitem s self ix = (Inr (length (packs s)), subset_store s ?rel' l' r')"
    and l': "loc ?ul (left s self) = Inr l'" and r': "loc ?ur (right s self) = Inr r'"
    by blast
  from assms(3) have d: "distinct (index (left s self))" "distinct (index (right s self))"
    by (simp_all add: unique_identifiers_def)
  from l' have sl: "set ?ul \<subseteq> set (index (left s self))"
    by (auto simp: loc_def list_all_iff split: if_splits)
  from r' have sr: "set ?ur \<subseteq> set (index (right s self))"
    by (auto simp: loc_def list_all_iff split: if_splits)
  from loc_distinct_entity [OF d(1) sl] l'
  have L: "index l' = ?ul" "rows l' = map (row_of (left s self)) ?ul" "columns l' = columns (left s self)"
    by auto
  from loc_distinct_entity [OF d(2) sr] r'
  have R: "index r' = ?ur" "rows r' = map (row_of (right s self)) ?ur" "columns r' = columns (right s self)"
    by auto
  let ?s' = "subset_store s ?rel' l' r'"
  have st: "take (length (packs s)) (packs ?s') = packs s"
    "take (length (frames s)) (frames ?s') = frames s"
    "packs ?s' ! length (packs s) = \<lparr>relation_ref = length (frames s) + 2, left_ref = length (frames s),
                            right_ref = length (frames s) + 1\<rparr>"
    "length (frames ?s') = length (frames s) + 3"
    by (simp_all add: subset_store_def)
  have ln: "len ?s' (length (packs s)) = length idx"
    by (simp add: len_def selected_relation_rows selected_rows_def)
  show ?thesis
    apply (rule exI [of _ "length (packs s)"])
    apply (rule exI [of _ ?s'])
    apply (simp only: subset_store_frames selected_relation selected_relation_rows L R st ln g)
    apply simp
    done
qed

lemma getcol_values:
  assumes "getcol c df = Inr sr"
  shows "s_values sr = map (cell (columns df) c) (rows df)"
proof (cases "c \<in> set (columns df)")
  case True
  from getcol_member [OF True] assms show ?thesis by auto
next
  case False
  from getcol_missing [OF False] assms show ?thesis by simp
qed

lemma loc_returned_index:
  assumes "loc ls df = Inr g"
  shows "set (index g) = set ls"
proof -
  from assms have "set ls \<subseteq> set (index df)"
    by (auto simp: loc_def list_all_iff split: if_splits)
  from loc_index_set [OF this] assms show ?thesis by auto
qed

lemma and_then_Inr: "and_then m f = Inr y \<Longrightarrow> \<exists>x. m = Inr x \<and> f x = Inr y"
  by (cases m) simp_all

lemma getitem_frames_returned:
  assumes "getitem_frames s self ix = Inr (rel', l', r')"
  shows "\<exists>sl sr. getcol ''id_left'' rel' = Inr sl \<and> loc (unique sl) (left s self) = Inr l' \<and>
           getcol ''id_right'' rel' = Inr sr \<and> loc (unique sr) (right s self) = Inr r'"
proof -
  from assms obtain idx where
    a: "and_then (loc (map IntV idx) (relation s self)) (\<lambda>selected.
     let relation' = reset_index_drop selected in
     and_then (getcol ''id_left'' relation') (\<lambda>ids_left.
     and_then (loc (unique ids_left) (left s self)) (\<lambda>left'.
     and_then (getcol ''id_right'' relation') (\<lambda>ids_right.
     and_then (loc (unique ids_right) (right s self)) (\<lambda>right'.
     Inr (relation', left', right')))))) = Inr (rel', l', r')"
    using and_then_Inr [OF assms [unfolded getitem_frames_def]] by blast
  from and_then_Inr [OF a] obtain sel where
    b: "and_then (getcol ''id_left'' (reset_index_drop sel)) (\<lambda>ids_left.
     and_then (loc (unique ids_left) (left s self)) (\<lambda>left'.
     and_then (getcol ''id_right'' (reset_index_drop sel)) (\<lambda>ids_right.
     and_then (loc (unique ids_right) (right s self)) (\<lambda>right'.
     Inr (reset_index_drop sel, left', right'))))) = Inr (rel', l', r')"
    by (auto simp: Let_def)
  from and_then_Inr [OF b] obtain sl where sl: "getcol ''id_left'' (reset_index_drop sel) = Inr sl"
    and c: "and_then (loc (unique sl) (left s self)) (\<lambda>left'.
     and_then (getcol ''id_right'' (reset_index_drop sel)) (\<lambda>ids_right.
     and_then (loc (unique ids_right) (right s self)) (\<lambda>right'.
     Inr (reset_index_drop sel, left', right')))) = Inr (rel', l', r')"
    by blast
  from and_then_Inr [OF c] obtain l2 where l2: "loc (unique sl) (left s self) = Inr l2"
    and d: "and_then (getcol ''id_right'' (reset_index_drop sel)) (\<lambda>ids_right.
     and_then (loc (unique ids_right) (right s self)) (\<lambda>right'.
     Inr (reset_index_drop sel, l2, right'))) = Inr (rel', l', r')"
    by blast
  from and_then_Inr [OF d] obtain sr where sr: "getcol ''id_right'' (reset_index_drop sel) = Inr sr"
    and e: "and_then (loc (unique sr) (right s self)) (\<lambda>right'.
     Inr (reset_index_drop sel, l2, right')) = Inr (rel', l', r')"
    by blast
  from and_then_Inr [OF e] obtain r2 where r2: "loc (unique sr) (right s self) = Inr r2"
    and f: "(reset_index_drop sel, l2, r2) = (rel', l', r')"
    by auto
  from f sl l2 sr r2 show ?thesis by auto
qed

lemma getitem_returned:
  assumes "getitem s self ix = (Inr q, s')"
  shows "\<exists>rel' l' r'. getitem_frames s self ix = Inr (rel', l', r') \<and>
           q = length (packs s) \<and> s' = subset_store s rel' l' r'"
proof (cases "getitem_frames s self ix")
  case (Inl e)
  with assms show ?thesis by (simp add: getitem_def)
next
  case (Inr t)
  obtain rel' l' r' where t: "t = (rel', l', r')" by (cases t) auto
  from getitem_store [OF Inr [unfolded t]] assms Inr t show ?thesis by auto
qed

lemma subset_has_integrity:
  assumes "getitem s self ix = (Inr q, s')"
  shows "referential_integrity s' q \<and>
           set (index (left s' q)) =
             set (map (cell (columns (relation s' q)) ''id_left'') (rows (relation s' q))) \<and>
           set (index (right s' q)) =
             set (map (cell (columns (relation s' q)) ''id_right'') (rows (relation s' q)))"
proof -
  from getitem_returned [OF assms] obtain rel' l' r' where
    f: "getitem_frames s self ix = Inr (rel', l', r')" and q: "q = length (packs s)"
    and s': "s' = subset_store s rel' l' r'"
    by blast
  from getitem_frames_returned [OF f] obtain sl sr where
    sl: "getcol ''id_left'' rel' = Inr sl" and l': "loc (unique sl) (left s self) = Inr l'"
    and sr: "getcol ''id_right'' rel' = Inr sr" and r': "loc (unique sr) (right s self) = Inr r'"
    by blast
  have L: "set (index l') = set (map (cell (columns rel') ''id_left'') (rows rel'))"
    using loc_returned_index [OF l'] getcol_values [OF sl]
    by (simp add: unique_def first_occurrences_set)
  have R: "set (index r') = set (map (cell (columns rel') ''id_right'') (rows rel'))"
    using loc_returned_index [OF r'] getcol_values [OF sr]
    by (simp add: unique_def first_occurrences_set)
  have "referential_integrity s' q"
    unfolding referential_integrity_def s' q subset_store_frames
    using L R by (auto simp: list_all_iff)
  with L R show ?thesis unfolding s' q subset_store_frames by simp
qed

text \<open>
  C3. Subsetting preserves referential integrity. Whatever \<^verbatim>\<open>DataPack\<close> \<^verbatim>\<open>dp[idx]\<close>
  returns, for any \<^verbatim>\<open>DataPack\<close> and any index, every identifier of its relation is a key
  of its entity table, and its entity tables hold exactly the identifiers that its
  relation rows refer to. And \<^verbatim>\<open>dp[idx]\<close> does return a \<^verbatim>\<open>DataPack\<close> when \<open>idx\<close> gives
  valid positions and the \<^verbatim>\<open>DataPack\<close> has referential integrity, with its relation
  numbered from zero and holding the two identifier columns.
\<close>

theorem getitem_preserves_referential_integrity:
  "(\<forall>q s'. getitem s self ix = (Inr q, s') \<longrightarrow>
      referential_integrity s' q \<and>
      set (index (left s' q)) =
        set (map (cell (columns (relation s' q)) ''id_left'') (rows (relation s' q))) \<and>
      set (index (right s' q)) =
        set (map (cell (columns (relation s' q)) ''id_right'') (rows (relation s' q)))) \<and>
   (referential_integrity s self \<and> numbered_from_zero (relation s self) \<and>
    has_id_columns (relation s self) \<and>
    (\<exists>idx. convert_to_list_index ix (len s self) = Inr idx \<and> valid_positions idx (len s self)) \<longrightarrow>
      (\<exists>q s'. getitem s self ix = (Inr q, s')))"
proof (intro conjI allI impI)
  fix q s'
  assume g: "getitem s self ix = (Inr q, s')"
  note i = subset_has_integrity [OF g]
  from i show "referential_integrity s' q" by (rule conjunct1)
  from i show "set (index (left s' q)) =
        set (map (cell (columns (relation s' q)) ''id_left'') (rows (relation s' q)))"
    by (elim conjE)
  from i show "set (index (right s' q)) =
        set (map (cell (columns (relation s' q)) ''id_right'') (rows (relation s' q)))"
    by (elim conjE)
next
  assume a: "referential_integrity s self \<and> numbered_from_zero (relation s self) \<and>
    has_id_columns (relation s self) \<and>
    (\<exists>idx. convert_to_list_index ix (len s self) = Inr idx \<and> valid_positions idx (len s self))"
  then obtain idx where
    c: "convert_to_list_index ix (len s self) = Inr idx" and v: "valid_positions idx (len s self)"
    by (elim conjE exE)
  from a have ri: "referential_integrity s self" and nz: "numbered_from_zero (relation s self)"
    and ids: "has_id_columns (relation s self)"
    by simp_all
  from getitem_result [OF nz ids ri c v] obtain l' r' where
    "getitem s self ix =
       (Inr (length (packs s)),
        subset_store s (reset_index_drop (take_rows (map nat idx) (relation s self))) l' r')"
    by (elim exE conjE)
  then show "\<exists>q s'. getitem s self ix = (Inr q, s')"
    by (intro exI)
qed

lemma example_invariants:
  "numbered_from_zero (relation example_store 0)"
  "has_id_columns (relation example_store 0)"
  "unique_identifiers example_store 0"
  "referential_integrity example_store 0"
  by code_simp+

theorem getitem_selects_witness:
  "\<exists>q s'. getitem example_store 0 (SliceIndex None None (Some (- 1))) = (Inr q, s') \<and> q = 1 \<and>
     take 1 (packs s') = packs example_store \<and> take 3 (frames s') = frames example_store \<and>
     len s' q = 2 \<and>
     index (relation s' q) = [IntV 0, IntV 1] \<and>
     rows (relation s' q) = [[StrV ''qid2'', StrV ''did2'', IntV 1], [StrV ''qid1'', StrV ''did1'', IntV 1]] \<and>
     index (left s' q) = [StrV ''qid2'', StrV ''qid1''] \<and>
     rows (left s' q) = [[StrV ''query 2''], [StrV ''query 1'']] \<and>
     index (right s' q) = [StrV ''did2'', StrV ''did1''] \<and>
     rows (right s' q) = [[StrV ''document 2''], [StrV ''document 1'']]"
proof -
  have c: "convert_to_list_index (SliceIndex None None (Some (- 1))) (len example_store 0) = Inr [1, 0]"
    by code_simp
  have v: "valid_positions [1, 0] (len example_store 0)"
    by (rule slice_positions_valid [OF c])
  have e: "selected_rows example_store 0 [1, 0] =
      [[StrV ''qid2'', StrV ''did2'', IntV 1], [StrV ''qid1'', StrV ''did1'', IntV 1]]"
    "first_occurrences [] (map (cell (columns (relation example_store 0)) ''id_left'')
        (selected_rows example_store 0 [1, 0])) = [StrV ''qid2'', StrV ''qid1'']"
    "first_occurrences [] (map (cell (columns (relation example_store 0)) ''id_right'')
        (selected_rows example_store 0 [1, 0])) = [StrV ''did2'', StrV ''did1'']"
    "row_of (left example_store 0) (StrV ''qid2'') = [StrV ''query 2'']"
    "row_of (left example_store 0) (StrV ''qid1'') = [StrV ''query 1'']"
    "row_of (right example_store 0) (StrV ''did2'') = [StrV ''document 2'']"
    "row_of (right example_store 0) (StrV ''did1'') = [StrV ''document 1'']"
    "length (packs example_store) = 1" "length (frames example_store) = 3"
    by code_simp+
  from getitem_selects [OF example_invariants c v] obtain q s' where
    g: "getitem example_store 0 (SliceIndex None None (Some (- 1))) = (Inr q, s')"
      "q = length (packs example_store)"
      "take (length (packs example_store)) (packs s') = packs example_store"
      "take (length (frames example_store)) (frames s') = frames example_store"
      "len s' q = length [1, 0 :: int]"
      "index (relation s' q) = range_index (length [1, 0 :: int])"
      "rows (relation s' q) = selected_rows example_store 0 [1, 0]"
      "index (left s' q) = first_occurrences [] (map (cell (columns (relation example_store 0)) ''id_left'')
        (selected_rows example_store 0 [1, 0]))"
      "rows (left s' q) = map (row_of (left example_store 0)) (index (left s' q))"
      "index (right s' q) = first_occurrences [] (map (cell (columns (relation example_store 0)) ''id_right'')
        (selected_rows example_store 0 [1, 0]))"
      "rows (right s' q) = map (row_of (right example_store 0)) (index (right s' q))"
    by blast
  have "q = 1" "take 1 (packs s') = packs example_store" "take 3 (frames s') = frames example_store"
    using g(2,3,4) by (simp_all only: e)
  moreover have "len s' q = 2" "index (relation s' q) = [IntV 0, IntV 1]"
    using g(5,6) by (simp_all add: range_index_def)
  moreover have "rows (left s' q) = [[StrV ''query 2''], [StrV ''query 1'']]"
    "rows (right s' q) = [[StrV ''document 2''], [StrV ''document 1'']]"
    by (simp_all only: g(8,9,10,11) e(2-7) list.map)
  moreover have "rows (relation s' q) =
      [[StrV ''qid2'', StrV ''did2'', IntV 1], [StrV ''qid1'', StrV ''did1'', IntV 1]]"
    "index (left s' q) = [StrV ''qid2'', StrV ''qid1'']"
    "index (right s' q) = [StrV ''did2'', StrV ''did1'']"
    by (simp_all only: g(7,8,10) e(2,3), simp only: e(1))
  ultimately show ?thesis using g(1) by blast
qed

text \<open>
  The relation is looked up by row label, not by position. With the rows of the example
  labelled 10 and 11 all the other invariants hold and the positions of \<^verbatim>\<open>dp[:]\<close> and
  of \<^verbatim>\<open>dp[0]\<close> are valid, but both raise \<^verbatim>\<open>KeyError\<close>; with the rows labelled 1 and 0,
  \<^verbatim>\<open>dp[0]\<close> returns the row at position 1 and not the row at position 0.
\<close>

theorem getitem_by_label_counterexample:
  "pack_ok shifted_store 0 \<and> has_id_columns (relation shifted_store 0) \<and>
   unique_identifiers shifted_store 0 \<and> referential_integrity shifted_store 0 \<and>
   distinct (joined_columns shifted_store 0) \<and>
   convert_to_list_index (SliceIndex None None None) (len shifted_store 0) = Inr [0, 1] \<and>
   valid_positions [0, 1] (len shifted_store 0) \<and>
   getitem shifted_store 0 (SliceIndex None None None) = (Inl KeyError, shifted_store) \<and>
   convert_to_list_index (IntIndex 0) (len shifted_store 0) = Inr [0] \<and>
   valid_positions [0] (len shifted_store 0) \<and>
   getitem shifted_store 0 (IntIndex 0) = (Inl KeyError, shifted_store) \<and>
   pack_ok swapped_store 0 \<and> has_id_columns (relation swapped_store 0) \<and>
   unique_identifiers swapped_store 0 \<and> referential_integrity swapped_store 0 \<and>
   distinct (joined_columns swapped_store 0) \<and>
   convert_to_list_index (IntIndex 0) (len swapped_store 0) = Inr [0] \<and>
   valid_positions [0] (len swapped_store 0) \<and>
   selected_rows swapped_store 0 [0] = [[StrV ''qid1'', StrV ''did1'', IntV 1]] \<and>
   fst (getitem swapped_store 0 (IntIndex 0)) = Inr 1 \<and>
   rows (relation (snd (getitem swapped_store 0 (IntIndex 0))) 1) =
     [[StrV ''qid2'', StrV ''did2'', IntV 1]]"
  by code_simp

text \<open>
  The other conditions are needed as well: with an identifier of the relation that is
  no key of the left table \<^verbatim>\<open>dp[idx]\<close> raises \<^verbatim>\<open>KeyError\<close>, and with an identifier that
  is the key of two rows of the left table the left table returned has it twice.
\<close>

lemma getitem_needs_integrity_and_unique_identifiers:
  "getitem (example_store\<lparr>frames := [example_relation,
       example_left\<lparr>index := [StrV ''qid1'', StrV ''qid3'']\<rparr>, example_right]\<rparr>) 0 (IntIndex 1) =
     (Inl KeyError, example_store\<lparr>frames := [example_relation,
       example_left\<lparr>index := [StrV ''qid1'', StrV ''qid3'']\<rparr>, example_right]\<rparr>)"
  "index (left (snd (getitem (example_store\<lparr>frames := [example_relation,
       example_left\<lparr>index := [StrV ''qid1'', StrV ''qid1'']\<rparr>, example_right]\<rparr>) 0 (IntIndex 0))) 1) =
     [StrV ''qid1'', StrV ''qid1'']"
  by code_simp+

theorem getitem_preserves_referential_integrity_witness:
  "\<exists>q s'. getitem example_store 0 (IntIndex 1) = (Inr q, s') \<and> referential_integrity s' q \<and>
     set (index (left s' q)) = {StrV ''qid2''} \<and> set (index (right s' q)) = {StrV ''did2''}"
proof -
  have c: "convert_to_list_index (IntIndex 1) (len example_store 0) = Inr [1]"
    by simp
  have v: "valid_positions [1] (len example_store 0)"
    by (simp add: valid_positions_def)
  note t = getitem_preserves_referential_integrity [of example_store 0 "IntIndex 1"]
  have "\<exists>q s'. getitem example_store 0 (IntIndex 1) = (Inr q, s')"
    by (rule mp [OF conjunct2 [OF t]])
      (intro conjI example_invariants(4) example_invariants(1) example_invariants(2)
         exI [of _ "[1]"] c v)
  then obtain q s' where g1: "getitem example_store 0 (IntIndex 1) = (Inr q, s')"
    by (elim exE)
  from conjunct1 [OF t] g1 have "referential_integrity s' q \<and>
      set (index (left s' q)) =
        set (map (cell (columns (relation s' q)) ''id_left'') (rows (relation s' q))) \<and>
      set (index (right s' q)) =
        set (map (cell (columns (relation s' q)) ''id_right'') (rows (relation s' q)))"
    by (elim allE) (drule (1) mp)
  with g1 have g: "getitem example_store 0 (IntIndex 1) = (Inr q, s')"
    "referential_integrity s' q"
    by simp_all
  have "getitem example_store 0 (IntIndex 1) =
     (Inr 1, example_store\<lparr>frames := frames example_store @
        [\<lparr>index_name = Some ''id_left'', index = [StrV ''qid2''], columns = [''text_left''],
           rows = [[StrV ''query 2'']]\<rparr>,
         \<lparr>index_name = Some ''id_right'', index = [StrV ''did2''], columns = [''text_right''],
           rows = [[StrV ''document 2'']]\<rparr>,
         \<lparr>index_name = None, index = [IntV 0], columns = [''id_left'', ''id_right'', ''label''],
           rows = [[StrV ''qid2'', StrV ''did2'', IntV 1]]\<rparr>],
        packs := packs example_store @ [\<lparr>relation_ref = 5, left_ref = 3, right_ref = 4\<rparr>]\<rparr>)"
    by code_simp
  with g(1) have "q = 1" and s': "s' = example_store\<lparr>frames := frames example_store @
        [\<lparr>index_name = Some ''id_left'', index = [StrV ''qid2''], columns = [''text_left''],
           rows = [[StrV ''query 2'']]\<rparr>,
         \<lparr>index_name = Some ''id_right'', index = [StrV ''did2''], columns = [''text_right''],
           rows = [[StrV ''document 2'']]\<rparr>,
         \<lparr>index_name = None, index = [IntV 0], columns = [''id_left'', ''id_right'', ''label''],
           rows = [[StrV ''qid2'', StrV ''did2'', IntV 1]]\<rparr>],
        packs := packs example_store @ [\<lparr>relation_ref = 5, left_ref = 3, right_ref = 4\<rparr>]\<rparr>"
    by simp_all
  have "set (index (left s' q)) = {StrV ''qid2''}" "set (index (right s' q)) = {StrV ''did2''}"
    unfolding s' \<open>q = 1\<close> by code_simp+
  with g(1,2) show ?thesis by blast
qed

section \<open>Optional in-place operations: \<^verbatim>\<open>drop_label\<close>\<close>

lemma copy_eq:
  "copy s self = (length (packs s), subset_store s (relation s self) (left s self) (right s self))"
  by (simp add: copy_def new_frame_def DataPack_def subset_store_def)

lemma optional_inplace_True:
  "optional_inplace f s self True =
     (case f s self of (Inl e, s2) \<Rightarrow> (Inl e, s2) | (Inr u, s2) \<Rightarrow> (Inr None, s2))"
  by (simp add: optional_inplace_def)

lemma optional_inplace_False:
  "optional_inplace f s self False =
     (case f (subset_store s (relation s self) (left s self) (right s self)) (length (packs s)) of
        (Inl e, s2) \<Rightarrow> (Inl e, s2)
      | (Inr u, s2) \<Rightarrow> (Inr (Some (length (packs s))), s2))"
  by (simp add: optional_inplace_def copy_eq)

lemma unchanged_refl [simp]: "unchanged s s"
  by (simp add: unchanged_def)

lemma unchanged_subset_store [simp]: "unchanged s (subset_store s rel' l' r')"
  by (simp add: unchanged_def subset_store_def)

lemma unchanged_frames:
  assumes "unchanged s s'" "store_ok s" "self < length (packs s)"
  shows "relation s' self = relation s self" "left s' self = left s self" "right s' self = right s self"
proof -
  from assms(1) have p: "packs s' ! self = packs s ! self"
    using assms(3) by (metis nth_take unchanged_def)
  from assms(2,3) have r: "relation_ref (packs s ! self) < length (frames s)"
    "left_ref (packs s ! self) < length (frames s)" "right_ref (packs s ! self) < length (frames s)"
    by (simp_all add: store_ok_def list_all_length)
  from assms(1) have "frames s' ! k = frames s ! k" if "k < length (frames s)" for k
    using that by (metis nth_take unchanged_def)
  with p r show "relation s' self = relation s self" "left s' self = left s self"
    "right s' self = right s self"
    by (simp_all add: relation_def left_def right_def)
qed

lemma store_ok_live:
  assumes "store_ok s" "self < length (packs s)"
  shows "relation_ref (packs s ! self) < length (frames s)"
    "left_ref (packs s ! self) < length (frames s)" "right_ref (packs s ! self) < length (frames s)"
  using assms by (simp_all add: store_ok_def list_all_length)

lemma rebound_frames:
  assumes "store_ok s" "self < length (packs s)"
  shows "relation (rebound s self df) self = df"
    "left (rebound s self df) self = left s self"
    "right (rebound s self df) self = right s self"
  using assms store_ok_live [OF assms]
  by (simp_all add: rebound_def set_relation_def relation_def left_def right_def nth_append)

lemma rebound_store_ok:
  assumes "store_ok s" "self < length (packs s)"
  shows "store_ok (rebound s self df)" "self < length (packs (rebound s self df))"
proof -
  have "relation_ref p < Suc (length (frames s)) \<and> left_ref p < Suc (length (frames s)) \<and>
        right_ref p < Suc (length (frames s))"
    if "p \<in> set ((packs s)[self := (packs s ! self)\<lparr>relation_ref := length (frames s)\<rparr>])" for p
  proof -
    from that have "p = (packs s ! self)\<lparr>relation_ref := length (frames s)\<rparr> \<or> p \<in> set (packs s)"
      using set_update_subset_insert [of "packs s" self] by auto
    then show ?thesis
      using assms store_ok_live [OF assms] by (auto simp: store_ok_def list_all_iff less_Suc_eq)
  qed
  then show "store_ok (rebound s self df)"
    by (simp add: store_ok_def rebound_def set_relation_def list_all_iff)
  show "self < length (packs (rebound s self df))"
    using assms(2) by (simp add: rebound_def set_relation_def)
qed

lemma drop_label_body_present:
  assumes "has_label s self"
  shows "drop_label_body s self =
    (Inr (), rebound s self ((relation s self)\<lparr>columns := filter (\<lambda>x. x \<noteq> ''label'') (columns (relation s self)),
                   rows := map (drop_cells ''label'' (columns (relation s self))) (rows (relation s self))\<rparr>))"
  using assms by (simp add: drop_label_body_def drop_columns_def has_label_def new_frame_def rebound_def)

lemma drop_label_body_absent:
  assumes "\<not> has_label s self"
  shows "drop_label_body s self = (Inl KeyError, s)"
  using assms by (simp add: drop_label_body_def drop_columns_def has_label_def)

lemma subset_store_ok:
  assumes "store_ok s"
  shows "store_ok (subset_store s rel' l' r')"
    "length (packs s) < length (packs (subset_store s rel' l' r'))"
  using assms by (auto simp: store_ok_def subset_store_def list_all_iff)

lemma unchanged_rebound_new:
  "unchanged s (rebound (subset_store s rel' l' r') (length (packs s)) df)"
  by (simp add: unchanged_def rebound_def set_relation_def subset_store_def)

lemma dropped_no_label:
  "''label'' \<notin> set (columns (df\<lparr>columns := filter (\<lambda>x. x \<noteq> ''label'') (columns df), rows := rs\<rparr>))"
  by simp

lemma drop_label_inplace:
  assumes "store_ok s" "self < length (packs s)" "has_label s self"
  shows "\<exists>s'. drop_label s self True = (Inr None, s') \<and> \<not> has_label s' self \<and>
           left s' self = left s self \<and> right s' self = right s self \<and>
           store_ok s' \<and> self < length (packs s')"
  using rebound_frames [OF assms(1,2)] rebound_store_ok [OF assms(1,2)]
  by (simp add: drop_label_def optional_inplace_True drop_label_body_present [OF assms(3)] has_label_def)

lemma drop_label_copy:
  assumes "store_ok s" "self < length (packs s)" "has_label s self"
  shows "\<exists>q s'. drop_label s self False = (Inr (Some q), s') \<and> q = length (packs s) \<and>
           \<not> has_label s' q \<and>
           left s' q = left s self \<and> right s' q = right s self \<and> unchanged s s'"
proof -
  let ?c = "subset_store s (relation s self) (left s self) (right s self)"
  let ?q = "length (packs s)"
  have h: "has_label ?c ?q"
    using assms(3) by (simp add: has_label_def)
  have ok: "store_ok ?c" "?q < length (packs ?c)"
    by (rule subset_store_ok [OF assms(1)])+
  show ?thesis
    using rebound_frames [OF ok] unchanged_rebound_new
    by (simp add: drop_label_def optional_inplace_False drop_label_body_present [OF h] has_label_def)
qed

lemma drop_label_missing:
  assumes "\<not> has_label s self"
  shows "\<exists>s'. drop_label s self inplace = (Inl KeyError, s') \<and> unchanged s s'"
proof (cases inplace)
  case True
  then show ?thesis
    by (simp add: drop_label_def optional_inplace_True drop_label_body_absent [OF assms])
next
  case False
  let ?c = "subset_store s (relation s self) (left s self) (right s self)"
  have "\<not> has_label ?c (length (packs s))"
    using assms by (simp add: has_label_def)
  with False show ?thesis
    by (simp add: drop_label_def optional_inplace_False drop_label_body_absent)
qed

text \<open>
  C7. On a \<^verbatim>\<open>DataPack\<close> with a label column, \<^verbatim>\<open>drop_label\<close> gives a table without one
  and with the left and right tables it had: the receiver itself with \<^verbatim>\<open>inplace\<close>, a
  new object otherwise, the receiver then staying as it was. On a \<^verbatim>\<open>DataPack\<close> without
  a label column it raises \<^verbatim>\<open>KeyError\<close> and every object is left as it was; so a second
  \<^verbatim>\<open>drop_label\<close> after one in place fails.
\<close>

theorem drop_label_removes_label_or_raises:
  assumes "store_ok s" and "self < length (packs s)"
  shows "(has_label s self \<longrightarrow>
           (\<exists>s'. drop_label s self True = (Inr None, s') \<and> \<not> has_label s' self \<and>
              left s' self = left s self \<and> right s' self = right s self \<and>
              (\<forall>inplace. \<exists>s''. drop_label s' self inplace = (Inl KeyError, s'') \<and> unchanged s' s'')) \<and>
           (\<exists>q s'. drop_label s self False = (Inr (Some q), s') \<and> q = length (packs s) \<and>
              \<not> has_label s' q \<and>
              left s' q = left s self \<and> right s' q = right s self \<and> unchanged s s')) \<and>
         (\<not> has_label s self \<longrightarrow>
           (\<forall>inplace. \<exists>s'. drop_label s self inplace = (Inl KeyError, s') \<and> unchanged s s' \<and>
              relation s' self = relation s self \<and> left s' self = left s self \<and>
              right s' self = right s self))"
proof (intro conjI impI allI)
  assume h: "has_label s self"
  from drop_label_inplace [OF assms h] obtain s' where
    s': "drop_label s self True = (Inr None, s')" "\<not> has_label s' self"
      "left s' self = left s self" "right s' self = right s self"
    by blast
  have "\<exists>s''. drop_label s' self inplace = (Inl KeyError, s'') \<and> unchanged s' s''" for inplace
    by (rule drop_label_missing [OF s'(2)])
  with s' show "\<exists>s'. drop_label s self True = (Inr None, s') \<and> \<not> has_label s' self \<and>
              left s' self = left s self \<and> right s' self = right s self \<and>
              (\<forall>inplace. \<exists>s''. drop_label s' self inplace = (Inl KeyError, s'') \<and> unchanged s' s'')"
    by blast
next
  assume h: "has_label s self"
  show "\<exists>q s'. drop_label s self False = (Inr (Some q), s') \<and> q = length (packs s) \<and>
              \<not> has_label s' q \<and>
              left s' q = left s self \<and> right s' q = right s self \<and> unchanged s s'"
    by (rule drop_label_copy [OF assms h])
next
  fix inplace
  assume h: "\<not> has_label s self"
  from drop_label_missing [OF h] obtain s' where
    s': "drop_label s self inplace = (Inl KeyError, s')" "unchanged s s'"
    by blast
  with unchanged_frames [OF s'(2) assms]
  show "\<exists>s'. drop_label s self inplace = (Inl KeyError, s') \<and> unchanged s s' \<and>
              relation s' self = relation s self \<and> left s' self = left s self \<and>
              right s' self = right s self"
    by blast
qed

lemma example_store_ok: "store_ok example_store" "0 < length (packs example_store)"
  by code_simp+

theorem drop_label_removes_label_or_raises_witness:
  "has_label example_store 0 \<and>
   (\<exists>s'. drop_label example_store 0 True = (Inr None, s') \<and> \<not> has_label s' 0 \<and>
      left s' 0 = example_left \<and> right s' 0 = example_right \<and>
      fst (drop_label s' 0 True) = Inl KeyError)"
proof -
  have h: "has_label example_store 0" by code_simp
  from drop_label_removes_label_or_raises [OF example_store_ok] h
  obtain s' where s': "drop_label example_store 0 True = (Inr None, s')" "\<not> has_label s' 0"
      "left s' 0 = left example_store 0" "right s' 0 = right example_store 0"
      "\<forall>inplace. \<exists>s''. drop_label s' 0 inplace = (Inl KeyError, s'') \<and> unchanged s' s''"
    by blast
  from s'(5) have "fst (drop_label s' 0 True) = Inl KeyError"
    by (metis fst_conv)
  with h s'(1-4) show ?thesis by simp
qed

section \<open>\<^verbatim>\<open>shuffle\<close> and \<^verbatim>\<open>apply_on_text\<close>\<close>

lemma shuffle_body_eq:
  assumes "self < length (packs s)"
  shows "shuffle_body perm s self =
           (Inr (), rebound s self (reset_index_drop (sample perm (relation s self))))"
proof -
  let ?df = "sample perm (relation s self)"
  let ?s2 = "set_relation self (length (frames s)) (s\<lparr>frames := frames s @ [?df]\<rparr>)"
  have r: "relation_ref (packs ?s2 ! self) = length (frames s)"
    using assms by (simp add: set_relation_def)
  have rel: "relation ?s2 self = ?df"
    using r by (simp add: relation_def set_relation_def)
  have "?s2\<lparr>frames := (frames ?s2)[relation_ref (packs ?s2 ! self) := reset_index_drop (relation ?s2 self)]\<rparr>
        = rebound s self (reset_index_drop ?df)"
    unfolding r rel by (simp add: rebound_def set_relation_def)
  then show ?thesis
    by (simp add: shuffle_body_def new_frame_def Let_def)
qed

lemma shuffled_relation:
  "columns (reset_index_drop (sample perm df)) = columns df"
  "rows (reset_index_drop (sample perm df)) = map (\<lambda>p. rows df ! p) perm"
  "index (reset_index_drop (sample perm df)) = range_index (length perm)"
  by (simp_all add: reset_index_drop_def sample_def take_rows_def)

lemma mset_permuted:
  assumes "mset perm = mset [0..<length xs]"
  shows "mset (map (\<lambda>p. xs ! p) perm) = mset xs"
proof -
  have "mset (map (\<lambda>p. xs ! p) perm) = image_mset (\<lambda>p. xs ! p) (mset perm)"
    by simp
  also have "\<dots> = mset (map (\<lambda>p. xs ! p) [0..<length xs])"
    unfolding assms by simp
  also have "\<dots> = mset xs"
    by (simp add: map_nth)
  finally show ?thesis .
qed

lemma shuffle_inplace:
  assumes "store_ok s" "self < length (packs s)"
  shows "\<exists>s'. shuffle perm s self True = (Inr None, s') \<and>
           relation s' self = reset_index_drop (sample perm (relation s self)) \<and>
           left s' self = left s self \<and> right s' self = right s self"
  using rebound_frames [OF assms]
  by (simp add: shuffle_def optional_inplace_True shuffle_body_eq [OF assms(2)])

lemma shuffle_copy:
  assumes "store_ok s" "self < length (packs s)"
  shows "\<exists>q s'. shuffle perm s self False = (Inr (Some q), s') \<and> q = length (packs s) \<and>
           unchanged s s' \<and>
           relation s' q = reset_index_drop (sample perm (relation s self)) \<and>
           left s' q = left s self \<and> right s' q = right s self"
proof -
  let ?c = "subset_store s (relation s self) (left s self) (right s self)"
  let ?q = "length (packs s)"
  have ok: "store_ok ?c" "?q < length (packs ?c)"
    by (rule subset_store_ok [OF assms(1)])+
  show ?thesis
    using rebound_frames [OF ok] unchanged_rebound_new
    by (simp add: shuffle_def optional_inplace_False shuffle_body_eq [OF ok(2)])
qed

text \<open>
  C6. \<^verbatim>\<open>shuffle\<close> with the order \<open>perm\<close> drawn by \<^verbatim>\<open>sample\<close>, a permutation of the
  positions. Without \<^verbatim>\<open>inplace\<close> every object of the store, the receiver with its three
  frames among them, stays as it was, and the \<^verbatim>\<open>DataPack\<close> returned has the same rows
  as a multiset, the same length, a relation numbered from zero, and left and right
  tables equal to the receiver's. With \<^verbatim>\<open>inplace\<close> nothing is returned and the
  receiver's relation holds the rows in the drawn order.
\<close>

theorem shuffle_permutes_relation:
  assumes "store_ok s" and "self < length (packs s)"
    and "mset perm = mset [0..<len s self]"
  shows "(\<exists>q s'. shuffle perm s self False = (Inr (Some q), s') \<and> q = length (packs s) \<and>
            unchanged s s' \<and> relation s' self = relation s self \<and>
            left s' self = left s self \<and> right s' self = right s self \<and>
            mset (rows (relation s' q)) = mset (rows (relation s self)) \<and>
            len s' q = len s self \<and>
            index (relation s' q) = range_index (len s self) \<and>
            columns (relation s' q) = columns (relation s self) \<and>
            left s' q = left s self \<and> right s' q = right s self) \<and>
         (\<exists>s'. shuffle perm s self True = (Inr None, s') \<and>
            rows (relation s' self) = map (\<lambda>p. rows (relation s self) ! p) perm \<and>
            mset (rows (relation s' self)) = mset (rows (relation s self)) \<and>
            len s' self = len s self \<and>
            index (relation s' self) = range_index (len s self) \<and>
            columns (relation s' self) = columns (relation s self) \<and>
            left s' self = left s self \<and> right s' self = right s self)"
proof
  have n: "length perm = len s self"
    using assms(3) by (metis length_upt minus_nat.diff_0 size_mset)
  have m: "mset (map (\<lambda>p. rows (relation s self) ! p) perm) = mset (rows (relation s self))"
    by (rule mset_permuted) (use assms(3) in \<open>simp add: len_def\<close>)
  from shuffle_copy [OF assms(1,2)] obtain q s' where
    c: "shuffle perm s self False = (Inr (Some q), s')" "unchanged s s'" "q = length (packs s)"
      "relation s' q = reset_index_drop (sample perm (relation s self))"
      "left s' q = left s self" "right s' q = right s self"
    by blast
  from unchanged_frames [OF c(2) assms(1,2)] c m n
  show "\<exists>q s'. shuffle perm s self False = (Inr (Some q), s') \<and> q = length (packs s) \<and>
            unchanged s s' \<and> relation s' self = relation s self \<and>
            left s' self = left s self \<and> right s' self = right s self \<and>
            mset (rows (relation s' q)) = mset (rows (relation s self)) \<and>
            len s' q = len s self \<and>
            index (relation s' q) = range_index (len s self) \<and>
            columns (relation s' q) = columns (relation s self) \<and>
            left s' q = left s self \<and> right s' q = right s self"
    by (simp add: shuffled_relation len_def)
  from shuffle_inplace [OF assms(1,2)] obtain s' where
    i: "shuffle perm s self True = (Inr None, s')"
      "relation s' self = reset_index_drop (sample perm (relation s self))"
      "left s' self = left s self" "right s' self = right s self"
    by blast
  with m n show "\<exists>s'. shuffle perm s self True = (Inr None, s') \<and>
            rows (relation s' self) = map (\<lambda>p. rows (relation s self) ! p) perm \<and>
            mset (rows (relation s' self)) = mset (rows (relation s self)) \<and>
            len s' self = len s self \<and>
            index (relation s' self) = range_index (len s self) \<and>
            columns (relation s' self) = columns (relation s self) \<and>
            left s' self = left s self \<and> right s' self = right s self"
    by (simp add: shuffled_relation len_def)
qed

theorem shuffle_permutes_relation_witness:
  "(\<exists>q s'. shuffle [1, 0] example_store 0 False = (Inr (Some q), s') \<and>
      relation s' 0 = example_relation \<and> left s' q = example_left \<and> right s' q = example_right \<and>
      len s' q = 2 \<and> index (relation s' q) = [IntV 0, IntV 1]) \<and>
   (\<exists>s'. shuffle [1, 0] example_store 0 True = (Inr None, s') \<and>
      rows (relation s' 0) = [[StrV ''qid2'', StrV ''did2'', IntV 1], [StrV ''qid1'', StrV ''did1'', IntV 1]])"
proof -
  have p: "mset [1, 0] = mset [0..<len example_store 0]"
    by (simp add: upt_rec)
  have r: "map (\<lambda>p. rows (relation example_store 0) ! p) [1, 0] =
      [[StrV ''qid2'', StrV ''did2'', IntV 1], [StrV ''qid1'', StrV ''did1'', IntV 1]]"
    by code_simp
  from shuffle_permutes_relation [OF example_store_ok p] obtain q s' s'' where
    a: "shuffle [1, 0] example_store 0 False = (Inr (Some q), s')"
      "relation s' 0 = relation example_store 0" "left s' q = left example_store 0"
      "right s' q = right example_store 0" "len s' q = len example_store 0"
      "index (relation s' q) = range_index (len example_store 0)"
    and b: "shuffle [1, 0] example_store 0 True = (Inr None, s'')"
      "rows (relation s'' 0) = map (\<lambda>p. rows (relation example_store 0) ! p) [1, 0]"
    by blast
  from a have "\<exists>q s'. shuffle [1, 0] example_store 0 False = (Inr (Some q), s') \<and>
      relation s' 0 = example_relation \<and> left s' q = example_left \<and> right s' q = example_right \<and>
      len s' q = 2 \<and> index (relation s' q) = [IntV 0, IntV 1]"
    by simp
  moreover from b have "\<exists>s'. shuffle [1, 0] example_store 0 True = (Inr None, s') \<and>
      rows (relation s' 0) = [[StrV ''qid2'', StrV ''did2'', IntV 1], [StrV ''qid1'', StrV ''did1'', IntV 1]]"
    unfolding r by blast
  ultimately show ?thesis by blast
qed

lemma apply_on_text_body_invalid:
  assumes "mode \<notin> {''left'', ''right'', ''both''}"
  shows "apply_on_text_body func mode rename verbose s self = (Inl ValueError, s)"
  using assms by (simp add: apply_on_text_body_def)

text \<open>
  C8. With a \<^verbatim>\<open>mode\<close> other than \<^verbatim>\<open>left\<close>, \<^verbatim>\<open>right\<close> and \<^verbatim>\<open>both\<close>,
  \<^verbatim>\<open>apply_on_text\<close> raises \<^verbatim>\<open>ValueError\<close>, whatever the function, the new names and
  \<^verbatim>\<open>inplace\<close> are, and every object of the store is as it was: with \<^verbatim>\<open>inplace\<close> the
  store is the same, without it the store has gained the copy, on which nothing has been
  applied either. The receiver's three frames are those it had.
\<close>

theorem apply_on_text_invalid_mode:
  assumes "mode \<notin> {''left'', ''right'', ''both''}"
    and "store_ok s" and "self < length (packs s)"
  shows "\<exists>s'. apply_on_text func mode rename verbose s self inplace = (Inl ValueError, s') \<and>
           unchanged s s' \<and> (inplace \<longrightarrow> s' = s) \<and>
           (\<not> inplace \<longrightarrow> s' = subset_store s (relation s self) (left s self) (right s self)) \<and>
           left s' self = left s self \<and> right s' self = right s self \<and>
           relation s' self = relation s self"
proof (cases inplace)
  case True
  then show ?thesis
    by (simp add: apply_on_text_def optional_inplace_True apply_on_text_body_invalid [OF assms(1)])
next
  case False
  let ?c = "subset_store s (relation s self) (left s self) (right s self)"
  have u: "unchanged s ?c" by simp
  from unchanged_frames [OF u assms(2,3)] False show ?thesis
    by (simp add: apply_on_text_def optional_inplace_False apply_on_text_body_invalid [OF assms(1)])
qed

theorem apply_on_text_invalid_mode_witness:
  "apply_on_text mask_text ''all'' NoRename True example_store 0 True = (Inl ValueError, example_store) \<and>
   fst (apply_on_text mask_text ''all'' NoRename True example_store 0 False) = Inl ValueError \<and>
   left (snd (apply_on_text mask_text ''all'' NoRename True example_store 0 False)) 0 = example_left \<and>
   left (snd (apply_on_text mask_text ''left'' NoRename True example_store 0 True)) 0 \<noteq> example_left"
proof -
  have m: "''all'' \<notin> {''left'', ''right'', ''both''}" by simp
  from apply_on_text_invalid_mode [OF m example_store_ok, of mask_text NoRename True True]
  have a: "apply_on_text mask_text ''all'' NoRename True example_store 0 True = (Inl ValueError, example_store)"
    by auto
  from apply_on_text_invalid_mode [OF m example_store_ok, of mask_text NoRename True False]
  have b: "fst (apply_on_text mask_text ''all'' NoRename True example_store 0 False) = Inl ValueError"
    "left (snd (apply_on_text mask_text ''all'' NoRename True example_store 0 False)) 0 = example_left"
    by auto
  have c: "rows (left (snd (apply_on_text mask_text ''left'' NoRename True example_store 0 True)) 0)
      = [[StrV ''X''], [StrV ''X'']]"
    by code_simp
  have "rows example_left \<noteq> [[StrV ''X''], [StrV ''X'']]"
    by (simp add: example_left_def)
  with c have "left (snd (apply_on_text mask_text ''left'' NoRename True example_store 0 True)) 0 \<noteq> example_left"
    by metis
  with a b show ?thesis by simp
qed

section \<open>The view follows its \<^verbatim>\<open>DataPack\<close>\<close>

lemma cell_map_of:
  assumes "distinct cs" "length r = length cs" "c \<in> set cs"
  shows "map_of (zip cs r) c = Some (cell cs c r)"
proof -
  from column_position_Some [OF assms(3)] obtain j where
    j: "column_position c cs = Some j" "j < length cs" "cs ! j = c" by blast
  have "map_of (zip cs r) (cs ! j) = Some (r ! j)"
    by (rule map_of_zip_nth) (use assms j in simp_all)
  with j show ?thesis by (simp add: cell_def)
qed

lemma zip_drop_cells:
  assumes "length r = length cs"
  shows "zip (filter (\<lambda>x. x \<noteq> d) cs) (drop_cells d cs r) = filter (\<lambda>cv. fst cv \<noteq> d) (zip cs r)"
    and "length (drop_cells d cs r) = length (filter (\<lambda>x. x \<noteq> d) cs)"
  using assms unfolding drop_cells_def
  by (induction r cs rule: list_induct2) simp_all

lemma map_of_filter_other:
  "c \<noteq> d \<Longrightarrow> map_of (filter (\<lambda>cv. fst cv \<noteq> d) xs) c = map_of xs c"
  by (induction xs) auto

lemma cell_drop_cells:
  assumes "distinct cs" "length r = length cs" "c \<in> set cs" "c \<noteq> d"
  shows "cell (filter (\<lambda>x. x \<noteq> d) cs) c (drop_cells d cs r) = cell cs c r"
proof -
  have "map_of (zip (filter (\<lambda>x. x \<noteq> d) cs) (drop_cells d cs r)) c =
        Some (cell (filter (\<lambda>x. x \<noteq> d) cs) c (drop_cells d cs r))"
    by (rule cell_map_of) (use assms zip_drop_cells(2) [OF assms(2)] in simp_all)
  moreover have "map_of (zip (filter (\<lambda>x. x \<noteq> d) cs) (drop_cells d cs r)) c = map_of (zip cs r) c"
    by (simp add: zip_drop_cells(1) [OF assms(2)] map_of_filter_other [OF assms(4)])
  ultimately show ?thesis
    using cell_map_of [OF assms(1,2,3)] by simp
qed

lemma drop_label_inplace_store:
  assumes "has_label s self"
  shows "drop_label s self True = (Inr None, rebound s self (without_label (relation s self)))"
  by (simp add: drop_label_def optional_inplace_True drop_label_body_present [OF assms] without_label_def)

lemma frame_ok_without_label:
  assumes "frame_ok df"
  shows "frame_ok (without_label df)"
  using assms zip_drop_cells(2)
  by (auto simp: frame_ok_def without_label_def list_all_iff)

lemma distinct_append_filter:
  "distinct (xs @ filter P ys) " if "distinct (xs @ ys)"
  using that by auto

lemma well_formed_without_label:
  assumes wf: "well_formed s self"
  shows "well_formed (rebound s self (without_label (relation s self))) self"
proof -
  let ?rel = "relation s self"
  let ?s' = "rebound s self (without_label ?rel)"
  from wf have ok: "store_ok s" "self < length (packs s)"
    and fr: "frame_ok ?rel" "frame_ok (left s self)" "frame_ok (right s self)"
    and nz: "numbered_from_zero ?rel" and ids: "has_id_columns ?rel"
    and uq: "unique_identifiers s self" and ri: "referential_integrity s self"
    and dj: "distinct (joined_columns s self)"
    by (simp_all add: well_formed_def pack_ok_def)
  have f: "relation ?s' self = without_label ?rel" "left ?s' self = left s self"
    "right ?s' self = right s self"
    by (rule rebound_frames [OF ok])+
  have "pack_ok ?s' self"
    using rebound_store_ok [OF ok] fr frame_ok_without_label [OF fr(1)]
    by (simp add: pack_ok_def f)
  moreover have "numbered_from_zero (relation ?s' self)"
    using nz unfolding f by (simp add: numbered_from_zero_def without_label_def)
  moreover have "has_id_columns (relation ?s' self)"
    using ids unfolding f by (simp add: has_id_columns_def without_label_def)
  moreover have "unique_identifiers ?s' self"
    using uq by (simp add: unique_identifiers_def f)
  moreover have "referential_integrity ?s' self"
  proof -
    have c: "cell (columns (without_label ?rel)) c (drop_cells ''label'' (columns ?rel) r) =
          cell (columns ?rel) c r"
      if "r \<in> set (rows ?rel)" "c \<in> set (columns ?rel)" "c \<noteq> ''label''" for r c
      unfolding without_label_def using fr(1) that
      by (simp add: cell_drop_cells frame_ok_def list_all_iff)
    have l: "''id_left'' \<noteq> ''label''" "''id_right'' \<noteq> ''label''" by simp_all
    from ids have m: "''id_left'' \<in> set (columns ?rel)" "''id_right'' \<in> set (columns ?rel)"
      by (simp_all add: has_id_columns_def)
    have "rows (without_label ?rel) = map (drop_cells ''label'' (columns ?rel)) (rows ?rel)"
      by (simp add: without_label_def)
    with ri c [OF _ m(1) l(1)] c [OF _ m(2) l(2)] show ?thesis
      unfolding referential_integrity_def f by (simp add: list_all_iff)
  qed
  moreover have "distinct (joined_columns ?s' self)"
  proof -
    have "other_columns (without_label ?rel) = filter (\<lambda>x. x \<noteq> ''label'') (other_columns ?rel)"
      by (auto simp: other_columns_def without_label_def intro: filter_cong)
    with dj show ?thesis
      unfolding joined_columns_def f
      by (metis append.assoc distinct_append_filter)
  qed
  ultimately show ?thesis by (simp add: well_formed_def)
qed

lemma view_getitem_cong:
  assumes "relation s1 d = relation s2 d" "left s1 d = left s2 d" "right s1 d = right s2 d"
  shows "view_getitem s1 (frame d) ix = view_getitem s2 (frame d) ix"
  using assms by (simp add: view_getitem_def frame_def len_def)

lemma joined_columns_without_label:
  assumes "well_formed s self" "has_label s self"
  shows "''label'' \<in> set (joined_columns s self)"
    and "joined_columns (rebound s self (without_label (relation s self))) self =
           filter (\<lambda>c. c \<noteq> ''label'') (joined_columns s self)"
proof -
  let ?rel = "relation s self"
  let ?s' = "rebound s self (without_label ?rel)"
  let ?A = "(index_column_name (left s self) # columns (left s self)) @
            (index_column_name (right s self) # columns (right s self))"
  from assms(1) have ok: "store_ok s" "self < length (packs s)"
    and dj: "distinct (joined_columns s self)"
    by (simp_all add: well_formed_def pack_ok_def)
  have f: "relation ?s' self = without_label ?rel" "left ?s' self = left s self"
    "right ?s' self = right s self"
    by (rule rebound_frames [OF ok])+
  from assms(2) have lo: "''label'' \<in> set (other_columns ?rel)"
    by (simp add: has_label_def other_columns_def)
  then show "''label'' \<in> set (joined_columns s self)"
    by (simp add: joined_columns_def)
  from dj lo have "''label'' \<notin> set ?A"
    unfolding joined_columns_def by auto
  then have "\<forall>c\<in>set ?A. c \<noteq> ''label''"
    by blast
  then have fa: "filter (\<lambda>c. c \<noteq> ''label'') ?A = ?A"
    by (rule filter_True)
  have fo: "other_columns (without_label ?rel) = filter (\<lambda>x. x \<noteq> ''label'') (other_columns ?rel)"
    by (auto simp: other_columns_def without_label_def intro: filter_cong)
  have j: "joined_columns s self = ?A @ other_columns ?rel"
    "joined_columns ?s' self = ?A @ other_columns (without_label ?rel)"
    unfolding joined_columns_def f by simp_all
  have "filter (\<lambda>c. c \<noteq> ''label'') (joined_columns s self) =
        filter (\<lambda>c. c \<noteq> ''label'') ?A @ filter (\<lambda>c. c \<noteq> ''label'') (other_columns ?rel)"
    unfolding j(1) by (rule filter_append)
  also have "\<dots> = joined_columns ?s' self"
    unfolding j(2) fa fo ..
  finally show "joined_columns ?s' self = filter (\<lambda>c. c \<noteq> ''label'') (joined_columns s self)"
    by (rule sym)
qed

lemma row_of_length:
  assumes "frame_ok df" "l \<in> set (index df)"
  shows "length (row_of df l) = length (columns df)"
proof -
  from assms(2) have "label_positions l (index df) \<noteq> []"
    by (rule label_positions_nonempty)
  then have "hd (label_positions l (index df)) \<in> set (label_positions l (index df))"
    by simp
  then have "hd (label_positions l (index df)) < length (index df)"
    using label_positions_nth by blast
  with assms(1) show ?thesis
    by (simp add: row_of_def frame_ok_def list_all_length)
qed

lemma drop_cells_append:
  assumes "length a = length A" "d \<notin> set A"
  shows "drop_cells d (A @ O') (a @ map f O') = a @ map f (filter (\<lambda>c. c \<noteq> d) O')"
proof -
  have "\<forall>cv\<in>set (zip A a). fst cv \<noteq> d"
    using assms(2) by (auto dest: set_zip_leftD)
  then have 1: "filter (\<lambda>cv. fst cv \<noteq> d) (zip A a) = zip A a"
    by (rule filter_True)
  have 2: "map snd (filter (\<lambda>cv. fst cv \<noteq> d) (zip O' (map f O'))) = map f (filter (\<lambda>c. c \<noteq> d) O')"
    by (induction O') simp_all
  have 3: "zip (A @ O') (a @ map f O') = zip A a @ zip O' (map f O')"
    using assms(1) by simp
  have 4: "map snd (zip A a) = a"
    using assms(1) by simp
  show ?thesis
    unfolding drop_cells_def 3 filter_append map_append 1 2 4 ..
qed

lemma joined_row_without_label:
  assumes wf: "well_formed s self" and h: "has_label s self" and p: "p < len s self"
  shows "joined_row (rebound s self (without_label (relation s self))) self p =
           drop_cells ''label'' (joined_columns s self) (joined_row s self p)"
proof -
  let ?rel = "relation s self" and ?l = "left s self" and ?r = "right s self"
  let ?s' = "rebound s self (without_label ?rel)"
  let ?row = "rows ?rel ! p"
  let ?row' = "drop_cells ''label'' (columns ?rel) ?row"
  let ?lid = "cell (columns ?rel) ''id_left'' ?row" and ?rid = "cell (columns ?rel) ''id_right'' ?row"
  let ?A = "(index_column_name ?l # columns ?l) @ (index_column_name ?r # columns ?r)"
  let ?a = "(?lid # row_of ?l ?lid) @ (?rid # row_of ?r ?rid)"
  let ?f = "\<lambda>c. cell (columns ?rel) c ?row"
  let ?O = "other_columns ?rel"
  from wf have ok: "store_ok s" "self < length (packs s)"
    and fr: "frame_ok ?rel" "frame_ok ?l" "frame_ok ?r"
    and ids: "has_id_columns ?rel"
    and ri: "referential_integrity s self" and dj: "distinct (joined_columns s self)"
    by (simp_all add: well_formed_def pack_ok_def)
  have f: "relation ?s' self = without_label ?rel" "left ?s' self = ?l" "right ?s' self = ?r"
    by (rule rebound_frames [OF ok])+
  from p have rin: "?row \<in> set (rows ?rel)" by (simp add: len_def)
  from fr(1) rin have lr: "length ?row = length (columns ?rel)" and dc: "distinct (columns ?rel)"
    by (simp_all add: frame_ok_def list_all_iff)
  have c: "cell (filter (\<lambda>x. x \<noteq> ''label'') (columns ?rel)) c ?row' = ?f c"
    if "c \<in> set (columns ?rel)" "c \<noteq> ''label''" for c
    by (rule cell_drop_cells [OF dc lr that])
  have rw: "rows (without_label ?rel) ! p = ?row'"
    using p by (simp add: without_label_def len_def)
  have cw: "columns (without_label ?rel) = filter (\<lambda>x. x \<noteq> ''label'') (columns ?rel)"
    by (simp add: without_label_def)
  have ow: "other_columns (without_label ?rel) = filter (\<lambda>x. x \<noteq> ''label'') ?O"
    by (auto simp: other_columns_def without_label_def intro: filter_cong)
  from ids have m: "''id_left'' \<in> set (columns ?rel)" "''id_right'' \<in> set (columns ?rel)"
    by (simp_all add: has_id_columns_def)
  have lid': "cell (columns (without_label ?rel)) ''id_left'' ?row' = ?lid"
    unfolding cw by (rule c [OF m(1)]) simp
  have rid': "cell (columns (without_label ?rel)) ''id_right'' ?row' = ?rid"
    unfolding cw by (rule c [OF m(2)]) simp
  have mp: "map (\<lambda>c. cell (columns (without_label ?rel)) c ?row') (other_columns (without_label ?rel)) =
            map ?f (filter (\<lambda>x. x \<noteq> ''label'') ?O)"
    unfolding ow cw
  proof (rule map_cong [OF refl])
    fix c assume "c \<in> set (filter (\<lambda>x. x \<noteq> ''label'') ?O)"
    then have "c \<in> set (columns ?rel)" "c \<noteq> ''label''"
      by (simp_all add: other_columns_def)
    then show "cell (filter (\<lambda>x. x \<noteq> ''label'') (columns ?rel)) c ?row' = ?f c"
      by (rule c)
  qed
  have L: "joined_row ?s' self p = ?a @ map ?f (filter (\<lambda>x. x \<noteq> ''label'') ?O)"
    unfolding joined_row_def Let_def f rw lid' rid' mp by simp
  from rin ri have "?lid \<in> set (index ?l)" "?rid \<in> set (index ?r)"
    by (simp_all add: referential_integrity_def list_all_iff)
  then have len: "length ?a = length ?A"
    using row_of_length fr(2,3) by simp
  from h have lo: "''label'' \<in> set ?O"
    by (simp add: has_label_def other_columns_def)
  have d: "distinct (?A @ ?O)"
    using dj by (simp add: joined_columns_def)
  with lo have nA: "''label'' \<notin> set ?A"
    by auto
  have jc: "joined_columns s self = ?A @ ?O"
    by (simp add: joined_columns_def)
  have jr: "joined_row s self p = ?a @ map ?f ?O"
    by (simp add: joined_row_def Let_def)
  have R: "drop_cells ''label'' (joined_columns s self) (joined_row s self p) =
           ?a @ map ?f (filter (\<lambda>x. x \<noteq> ''label'') ?O)"
    unfolding jc jr by (rule drop_cells_append [OF len nA])
  from L R show ?thesis by (rule trans [OF _ sym])
qed

lemma len_without_label:
  assumes "store_ok s" "self < length (packs s)"
  shows "len (rebound s self (without_label (relation s self))) self = len s self"
  unfolding len_def rebound_frames(1) [OF assms] by (simp add: without_label_def)

lemma dropped_view:
  assumes wf: "well_formed s self" and h: "has_label s self"
    and g: "view_call s (frame self) = Inr g"
  shows "\<exists>s' g'. drop_label s self True = (Inr None, s') \<and> well_formed s' self \<and>
           view_call s' (frame self) = Inr g' \<and>
           index g' = index g \<and>
           columns g' = filter (\<lambda>c. c \<noteq> ''label'') (columns g) \<and>
           rows g' = map (drop_cells ''label'' (columns g)) (rows g) \<and>
           rows g' = map (joined_row s' self) [0..<len s' self] \<and>
           ''label'' \<notin> set (columns g')"
proof -
  let ?s' = "rebound s self (without_label (relation s self))"
  from view_call_ok [OF wf] g have
    g1: "columns g = joined_columns s self" "index g = range_index (len s self)"
      "rows g = map (joined_row s self) [0..<len s self]" by auto
  note wf' = well_formed_without_label [OF wf]
  from view_call_ok [OF wf'] obtain g' where
    g': "view_call ?s' (frame self) = Inr g'" "columns g' = joined_columns ?s' self"
      "index g' = range_index (len ?s' self)"
      "rows g' = map (joined_row ?s' self) [0..<len ?s' self]" by blast
  from wf have ok: "store_ok s" "self < length (packs s)"
    by (simp_all add: well_formed_def pack_ok_def)
  note n = len_without_label [OF ok]
  note j = joined_columns_without_label [OF wf h]
  have i: "index g' = index g"
    unfolding g'(3) g1(2) n ..
  have c: "columns g' = filter (\<lambda>c. c \<noteq> ''label'') (columns g)"
    unfolding g'(2) g1(1) j(2) ..
  have "map (joined_row ?s' self) [0..<len s self] =
        map (\<lambda>p. drop_cells ''label'' (joined_columns s self) (joined_row s self p)) [0..<len s self]"
    by (rule map_cong [OF refl]) (rule joined_row_without_label [OF wf h], simp)
  then have r: "rows g' = map (drop_cells ''label'' (columns g)) (rows g)"
    unfolding g'(4) n g1(1,3) by (simp add: comp_def)
  have nl: "''label'' \<notin> set (columns g')"
    unfolding c by simp
  show ?thesis
    apply (rule exI [of _ ?s'])
    apply (rule exI [of _ g'])
    apply (intro conjI)
           apply (rule drop_label_inplace_store [OF h])
          apply (rule wf')
         apply (rule g'(1))
        apply (rule i)
       apply (rule c)
      apply (rule r)
     apply (rule g'(4))
    apply (rule nl)
    done
qed

text \<open>
  C4, as the code has it. A frame view is the reference to its \<^verbatim>\<open>DataPack\<close> and
  nothing else, so a view made at any time is the same value, and what an access returns
  is computed from the store at the moment of the access. For a \<^verbatim>\<open>DataPack\<close> that is
  well formed at that moment (the data-model invariants hold and the names of the joined
  columns differ from each other) a slice of the view at valid positions is the frame of
  the joined rows of the \<^verbatim>\<open>DataPack\<close>'s present relation, left and right tables at those
  positions, and the full frame is the frame of all its joined rows. With a label column
  the full frame has the column \<open>label\<close>; after \<^verbatim>\<open>drop_label(inplace=True)\<close> the full
  frame of the same view is the former full frame without the column \<open>label\<close>: the same
  row labels, the other columns in their order, and each row without its label cell,
  which are the joined rows of the \<^verbatim>\<open>DataPack\<close> as it then is. An access depends on the
  store only through the three frames of the \<^verbatim>\<open>DataPack\<close>.
\<close>

theorem view_follows_data_pack:
  assumes "well_formed s self"
  shows "(\<forall>ix idx. convert_to_list_index ix (len s self) = Inr idx \<and> valid_positions idx (len s self) \<longrightarrow>
            (\<exists>f. view_getitem s (frame self) ix = Inr f \<and>
               index f = range_index (length idx) \<and>
               columns f = joined_columns s self \<and>
               rows f = map (\<lambda>i. joined_row s self (nat i)) idx)) \<and>
         (\<exists>g. view_call s (frame self) = Inr g \<and>
            index g = range_index (len s self) \<and>
            columns g = joined_columns s self \<and>
            rows g = map (joined_row s self) [0..<len s self] \<and>
            (has_label s self \<longrightarrow>
               ''label'' \<in> set (columns g) \<and>
               (\<exists>s' g'. drop_label s self True = (Inr None, s') \<and> well_formed s' self \<and>
                  view_call s' (frame self) = Inr g' \<and>
                  index g' = index g \<and>
                  columns g' = filter (\<lambda>c. c \<noteq> ''label'') (columns g) \<and>
                  rows g' = map (drop_cells ''label'' (columns g)) (rows g) \<and>
                  rows g' = map (joined_row s' self) [0..<len s' self] \<and>
                  ''label'' \<notin> set (columns g')))) \<and>
         (\<forall>s1 s2 ix. relation s1 self = relation s2 self \<and> left s1 self = left s2 self \<and>
                    right s1 self = right s2 self \<longrightarrow>
            view_getitem s1 (frame self) ix = view_getitem s2 (frame self) ix \<and>
            view_call s1 (frame self) = view_call s2 (frame self))"
proof (intro conjI)
  show "\<forall>ix idx. convert_to_list_index ix (len s self) = Inr idx \<and> valid_positions idx (len s self) \<longrightarrow>
            (\<exists>f. view_getitem s (frame self) ix = Inr f \<and>
               index f = range_index (length idx) \<and>
               columns f = joined_columns s self \<and>
               rows f = map (\<lambda>i. joined_row s self (nat i)) idx)"
  proof (intro allI impI, elim conjE)
    fix ix idx
    assume "convert_to_list_index ix (len s self) = Inr idx" "valid_positions idx (len s self)"
    from view_getitem_ok [OF assms this] obtain f where
      "view_getitem s (frame self) ix = Inr f" "columns f = joined_columns s self"
      "index f = range_index (length idx)" "rows f = map (\<lambda>i. joined_row s self (nat i)) idx"
      by blast
    then show "\<exists>f. view_getitem s (frame self) ix = Inr f \<and>
               index f = range_index (length idx) \<and>
               columns f = joined_columns s self \<and>
               rows f = map (\<lambda>i. joined_row s self (nat i)) idx"
      by (intro exI [of _ f] conjI)
  qed
next
  from view_call_ok [OF assms] obtain g where
    g: "view_call s (frame self) = Inr g" "columns g = joined_columns s self"
      "index g = range_index (len s self)"
      "rows g = map (joined_row s self) [0..<len s self]" by blast
  have d: "has_label s self \<longrightarrow>
               ''label'' \<in> set (columns g) \<and>
               (\<exists>s' g'. drop_label s self True = (Inr None, s') \<and> well_formed s' self \<and>
                  view_call s' (frame self) = Inr g' \<and>
                  index g' = index g \<and>
                  columns g' = filter (\<lambda>c. c \<noteq> ''label'') (columns g) \<and>
                  rows g' = map (drop_cells ''label'' (columns g)) (rows g) \<and>
                  rows g' = map (joined_row s' self) [0..<len s' self] \<and>
                  ''label'' \<notin> set (columns g'))"
  proof (intro impI conjI)
    assume h: "has_label s self"
    from joined_columns_without_label(1) [OF assms h] show "''label'' \<in> set (columns g)"
      by (simp only: g(2))
    from dropped_view [OF assms h g(1)]
    show "\<exists>s' g'. drop_label s self True = (Inr None, s') \<and> well_formed s' self \<and>
                  view_call s' (frame self) = Inr g' \<and>
                  index g' = index g \<and>
                  columns g' = filter (\<lambda>c. c \<noteq> ''label'') (columns g) \<and>
                  rows g' = map (drop_cells ''label'' (columns g)) (rows g) \<and>
                  rows g' = map (joined_row s' self) [0..<len s' self] \<and>
                  ''label'' \<notin> set (columns g')" .
  qed
  show "\<exists>g. view_call s (frame self) = Inr g \<and>
            index g = range_index (len s self) \<and>
            columns g = joined_columns s self \<and>
            rows g = map (joined_row s self) [0..<len s self] \<and>
            (has_label s self \<longrightarrow>
               ''label'' \<in> set (columns g) \<and>
               (\<exists>s' g'. drop_label s self True = (Inr None, s') \<and> well_formed s' self \<and>
                  view_call s' (frame self) = Inr g' \<and>
                  index g' = index g \<and>
                  columns g' = filter (\<lambda>c. c \<noteq> ''label'') (columns g) \<and>
                  rows g' = map (drop_cells ''label'' (columns g)) (rows g) \<and>
                  rows g' = map (joined_row s' self) [0..<len s' self] \<and>
                  ''label'' \<notin> set (columns g')))"
    by (intro exI [of _ g] conjI g(1) g(3) g(2) g(4) d)
next
  show "\<forall>s1 s2 ix. relation s1 self = relation s2 self \<and> left s1 self = left s2 self \<and>
                    right s1 self = right s2 self \<longrightarrow>
            view_getitem s1 (frame self) ix = view_getitem s2 (frame self) ix \<and>
            view_call s1 (frame self) = view_call s2 (frame self)"
    unfolding view_call_def by (intro allI impI conjI view_getitem_cong) simp_all
qed

theorem view_follows_data_pack_witness:
  "\<exists>g s' g'. view_call example_store (frame 0) = Inr g \<and>
     columns g = [''id_left'', ''text_left'', ''id_right'', ''text_right'', ''label''] \<and>
     rows g = [[StrV ''qid1'', StrV ''query 1'', StrV ''did1'', StrV ''document 1'', IntV 1],
               [StrV ''qid2'', StrV ''query 2'', StrV ''did2'', StrV ''document 2'', IntV 1]] \<and>
     drop_label example_store 0 True = (Inr None, s') \<and>
     view_call s' (frame 0) = Inr g' \<and>
     index g' = [IntV 0, IntV 1] \<and>
     columns g' = [''id_left'', ''text_left'', ''id_right'', ''text_right''] \<and>
     rows g' = [[StrV ''qid1'', StrV ''query 1'', StrV ''did1'', StrV ''document 1''],
                [StrV ''qid2'', StrV ''query 2'', StrV ''did2'', StrV ''document 2'']]"
proof -
  have h: "has_label example_store 0" by code_simp
  from conjunct1 [OF conjunct2 [OF view_follows_data_pack [OF example_wf]]] obtain g where
    g: "view_call example_store (frame 0) = Inr g"
    and d: "has_label example_store 0 \<longrightarrow>
               ''label'' \<in> set (columns g) \<and>
               (\<exists>s' g'. drop_label example_store 0 True = (Inr None, s') \<and> well_formed s' 0 \<and>
                  view_call s' (frame 0) = Inr g' \<and>
                  index g' = index g \<and>
                  columns g' = filter (\<lambda>c. c \<noteq> ''label'') (columns g) \<and>
                  rows g' = map (drop_cells ''label'' (columns g)) (rows g) \<and>
                  rows g' = map (joined_row s' 0) [0..<len s' 0] \<and>
                  ''label'' \<notin> set (columns g'))"
    by (elim exE conjE)
  from conjunct2 [OF mp [OF d h]] obtain s' g' where
    v: "drop_label example_store 0 True = (Inr None, s')"
      "view_call s' (frame 0) = Inr g'"
      "index g' = index g"
      "columns g' = filter (\<lambda>c. c \<noteq> ''label'') (columns g)"
      "rows g' = map (drop_cells ''label'' (columns g)) (rows g)"
    by (elim exE conjE)
  from g [unfolded example_full_frame]
  have "\<lparr>index_name = None, index = [IntV 0, IntV 1],
          columns = [''id_left'', ''text_left'', ''id_right'', ''text_right'', ''label''],
          rows = [[StrV ''qid1'', StrV ''query 1'', StrV ''did1'', StrV ''document 1'', IntV 1],
                  [StrV ''qid2'', StrV ''query 2'', StrV ''did2'', StrV ''document 2'', IntV 1]]\<rparr> = g"
    by (simp only: sum.inject)
  then have ge: "g = \<lparr>index_name = None, index = [IntV 0, IntV 1],
          columns = [''id_left'', ''text_left'', ''id_right'', ''text_right'', ''label''],
          rows = [[StrV ''qid1'', StrV ''query 1'', StrV ''did1'', StrV ''document 1'', IntV 1],
                  [StrV ''qid2'', StrV ''query 2'', StrV ''did2'', StrV ''document 2'', IntV 1]]\<rparr>"
    by (rule sym)
  have cg: "columns g = [''id_left'', ''text_left'', ''id_right'', ''text_right'', ''label'']"
    and rg: "rows g = [[StrV ''qid1'', StrV ''query 1'', StrV ''did1'', StrV ''document 1'', IntV 1],
               [StrV ''qid2'', StrV ''query 2'', StrV ''did2'', StrV ''document 2'', IntV 1]]"
    and ig: "index g = [IntV 0, IntV 1]"
    unfolding ge by simp_all
  have cg': "columns g' = [''id_left'', ''text_left'', ''id_right'', ''text_right'']"
    unfolding v(4) cg by simp
  have rg': "rows g' = [[StrV ''qid1'', StrV ''query 1'', StrV ''did1'', StrV ''document 1''],
                [StrV ''qid2'', StrV ''query 2'', StrV ''did2'', StrV ''document 2'']]"
    unfolding v(5) cg rg by code_simp
  have ig': "index g' = [IntV 0, IntV 1]"
    unfolding v(3) ig ..
  show ?thesis
    by (intro exI [of _ g] exI [of _ s'] exI [of _ g'] conjI g cg rg v(1) v(2) ig' cg' rg')
qed

text \<open>
  After \<^verbatim>\<open>apply_on_text(len, mode='left', rename='label', inplace=True)\<close> on the example
  the invariants of the data model hold and the relation has its label column, but
  the full frame of the view raises; and after \<^verbatim>\<open>drop_label(inplace=True)\<close> the full
  frame of the view has a column \<open>label\<close>, that of the left table.
\<close>

theorem view_label_in_left_counterexample:
  "pack_ok label_left_store 0 \<and> numbered_from_zero (relation label_left_store 0) \<and>
   has_id_columns (relation label_left_store 0) \<and> unique_identifiers label_left_store 0 \<and>
   referential_integrity label_left_store 0 \<and> has_label label_left_store 0 \<and>
   view_call label_left_store (frame 0) = Inl ValueError \<and>
   fst (drop_label label_left_store 0 True) = Inr None \<and>
   view_call (snd (drop_label label_left_store 0 True)) (frame 0) =
     Inr \<lparr>index_name = None, index = [IntV 0, IntV 1],
          columns = [''id_left'', ''text_left'', ''label'', ''id_right'', ''text_right''],
          rows = [[StrV ''qid1'', StrV ''query 1'', IntV 7, StrV ''did1'', StrV ''document 1''],
                  [StrV ''qid2'', StrV ''query 2'', IntV 7, StrV ''did2'', StrV ''document 2'']]\<rparr>"
  unfolding label_left_store_def by code_simp

section \<open>\<^verbatim>\<open>unpack\<close>\<close>

lemma cell_append_right:
  assumes "distinct (A @ O')" "length a = length A" "c \<in> set O'"
  shows "cell (A @ O') c (a @ map f O') = f c"
proof -
  have "map_of (zip (A @ O') (a @ map f O')) c = Some (cell (A @ O') c (a @ map f O'))"
    by (rule cell_map_of) (use assms in auto)
  moreover have "map_of (zip A a) c = None"
    using assms by (auto simp: map_of_eq_None_iff dest: set_zip_leftD)
  moreover have "map_of (zip O' (map f O')) c = Some (f c)"
    using assms(3) by (simp add: map_of_zip_map)
  ultimately show ?thesis
    using assms(2) by (simp add: map_add_def)
qed

lemma select_columns_ok:
  assumes "set cs \<subseteq> set (columns g)"
  shows "select_columns cs g = Inr (map (\<lambda>c. (c, map (cell (columns g) c) (rows g))) cs)"
  using assms by (induction cs) (simp_all add: getcol_member)

lemma joined_row_label:
  assumes wf: "well_formed s self" and p: "p < len s self"
    and c: "c \<in> set (other_columns (relation s self))"
  shows "cell (joined_columns s self) c (joined_row s self p) =
           cell (columns (relation s self)) c (rows (relation s self) ! p)"
proof -
  let ?rel = "relation s self" and ?l = "left s self" and ?r = "right s self"
  let ?row = "rows ?rel ! p"
  let ?lid = "cell (columns ?rel) ''id_left'' ?row" and ?rid = "cell (columns ?rel) ''id_right'' ?row"
  let ?A = "(index_column_name ?l # columns ?l) @ (index_column_name ?r # columns ?r)"
  let ?a = "(?lid # row_of ?l ?lid) @ (?rid # row_of ?r ?rid)"
  from wf have fr: "frame_ok ?l" "frame_ok ?r"
    and ri: "referential_integrity s self" and dj: "distinct (joined_columns s self)"
    by (simp_all add: well_formed_def pack_ok_def)
  from p have "?row \<in> set (rows ?rel)" by (simp add: len_def)
  with ri have "?lid \<in> set (index ?l)" "?rid \<in> set (index ?r)"
    by (simp_all add: referential_integrity_def list_all_iff)
  then have len: "length ?a = length ?A"
    using row_of_length fr by simp
  have d: "distinct (?A @ other_columns ?rel)"
    using dj by (simp add: joined_columns_def)
  have "cell (?A @ other_columns ?rel) c (?a @ map (\<lambda>c. cell (columns ?rel) c ?row) (other_columns ?rel))
          = cell (columns ?rel) c ?row"
    by (rule cell_append_right [OF d len c])
  then show ?thesis
    by (simp add: joined_columns_def joined_row_def Let_def)
qed

lemma select_columns_values:
  assumes "set cs \<subseteq> set (columns g)"
  shows "select_columns cs g = Inr (map (\<lambda>c. (c, column_values g c)) cs)"
  using select_columns_ok [OF assms] by (simp add: column_values_def)

lemma arrays_of_columns:
  "map (\<lambda>(key, val). (key, np_array val)) (map (\<lambda>c. (c, column_values g c)) cs) =
   map (\<lambda>c. (c, np_array (column_values g c))) cs"
  by simp

lemma unpack_labelled:
  assumes wf: "well_formed s self" and h: "has_label s self"
  shows "\<exists>g. view_call s (frame self) = Inr g \<and> columns g = joined_columns s self \<and>
           length (rows g) = len s self \<and>
           unpack s self =
             Inr (map (\<lambda>c. (c, np_array (column_values g c))) (remove1 ''label'' (joined_columns s self)),
                  Some (column_values (relation s self) ''label''))"
proof -
  from view_call_ok [OF wf] obtain g where
    g: "view_call s (frame self) = Inr g" "columns g = joined_columns s self"
      "rows g = map (joined_row s self) [0..<len s self]" by blast
  from h have lo: "''label'' \<in> set (other_columns (relation s self))"
    by (simp add: has_label_def other_columns_def)
  then have lj: "''label'' \<in> set (columns g)"
    by (simp add: g(2) joined_columns_def)
  have y: "map (cell (columns g) ''label'') (rows g) = column_values (relation s self) ''label''"
  proof -
    have "map (cell (columns g) ''label'') (rows g) =
          map (\<lambda>p. cell (columns (relation s self)) ''label'' (rows (relation s self) ! p)) [0..<len s self]"
      unfolding g(2,3) map_map comp_def
      by (intro map_cong refl joined_row_label [OF wf _ lo]) simp
    also have "\<dots> = map (cell (columns (relation s self)) ''label'')
                       (map (\<lambda>p. rows (relation s self) ! p) [0..<length (rows (relation s self))])"
      by (simp add: len_def)
    also have "\<dots> = column_values (relation s self) ''label''"
      unfolding map_nth column_values_def ..
    finally show ?thesis .
  qed
  have sub: "set (remove1 ''label'' (columns g)) \<subseteq> set (columns g)"
    by (rule set_remove1_subset)
  have "unpack s self =
             Inr (map (\<lambda>c. (c, np_array (column_values g c))) (remove1 ''label'' (columns g)),
                  Some (column_values (relation s self) ''label''))"
    using h lj
    by (simp only: unpack_def g(1) list_remove_def getcol_member y select_columns_values [OF sub]
          arrays_of_columns np_array_of_series_def and_then_simps if_True series.simps prod.case)
  with g show ?thesis by simp
qed

lemma unpack_unlabelled:
  assumes wf: "well_formed s self" and h: "\<not> has_label s self"
  shows "\<exists>g. view_call s (frame self) = Inr g \<and> columns g = joined_columns s self \<and>
           length (rows g) = len s self \<and>
           unpack s self = Inr (map (\<lambda>c. (c, np_array (column_values g c))) (joined_columns s self), None)"
proof -
  from view_call_ok [OF wf] obtain g where
    g: "view_call s (frame self) = Inr g" "columns g = joined_columns s self"
      "rows g = map (joined_row s self) [0..<len s self]" by blast
  have "select_columns (columns g) g = Inr (map (\<lambda>c. (c, column_values g c)) (columns g))"
    by (rule select_columns_values) simp
  then have "unpack s self = Inr (map (\<lambda>c. (c, np_array (column_values g c))) (columns g), None)"
    using h
    by (simp only: unpack_def g(1) arrays_of_columns and_then_simps if_False prod.case)
  with g show ?thesis by simp
qed

lemma length_column_values [simp]: "length (column_values g c) = length (rows g)"
  by (simp add: column_values_def)

lemma length_np_array [simp]: "length (np_array vs) = length vs"
  by (simp add: np_array_def)

lemma np_array_texts:
  assumes "list_all is_text vs"
  shows "np_array vs = vs"
proof -
  have "StrV (py_str v) = v" if "is_text v" for v
    using that by (cases v) (simp_all add: is_text_def py_str_def)
  with assms have "map (\<lambda>v. StrV (py_str v)) vs = vs"
    by (simp add: list_all_iff map_idI)
  then show ?thesis by (simp add: np_array_def)
qed

lemma np_array_numbers: "\<not> list_ex is_text vs \<Longrightarrow> np_array vs = vs"
  by (simp add: np_array_def)

lemma remove1_label_filter:
  assumes "distinct cs"
  shows "remove1 ''label'' cs = filter (\<lambda>c. c \<noteq> ''label'') cs"
proof -
  have "removeAll ''label'' cs = filter (\<lambda>c. c \<noteq> ''label'') cs"
    by (induction cs) auto
  with assms show ?thesis
    by (simp add: distinct_remove1_removeAll)
qed

text \<open>
  C5, as the code has it. For a well-formed \<^verbatim>\<open>DataPack\<close>, the names of whose joined
  columns differ from each other, \<^verbatim>\<open>unpack\<close> returns \<open>(X, y)\<close>. With a label
  column, \<open>y\<close> is the label column of the relation, of the length of the \<^verbatim>\<open>DataPack\<close>,
  and \<open>X\<close> maps every column name of the full frame but \<open>label\<close>, in the frame's
  order, to the array \<^verbatim>\<open>np.array\<close> makes of that column of the frame: it has the length
  of the \<^verbatim>\<open>DataPack\<close>; it holds the values of the column when they are all texts or
  none of them is a text, and the texts of the values (\<^verbatim>\<open>str\<close>) when the column mixes
  texts with numbers or missing values. Without a label column \<open>y\<close> is \<open>None\<close> and the
  keys of \<open>X\<close> are all the columns of the full frame. After the label has been dropped
  the keys of \<open>X\<close> are those of the labelled case: one fewer than the columns of the
  labelled full frame.
\<close>

theorem unpack_splits_frame:
  assumes "well_formed s self"
  shows "\<exists>g. view_call s (frame self) = Inr g \<and>
           (\<forall>c. length (np_array (column_values g c)) = len s self) \<and>
           (\<forall>c. list_all is_text (column_values g c) \<or> \<not> list_ex is_text (column_values g c) \<longrightarrow>
                  np_array (column_values g c) = column_values g c) \<and>
           (\<forall>c. list_ex is_text (column_values g c) \<longrightarrow>
                  np_array (column_values g c) = map (\<lambda>v. StrV (py_str v)) (column_values g c)) \<and>
           (has_label s self \<longrightarrow>
              unpack s self =
                Inr (map (\<lambda>c. (c, np_array (column_values g c))) (remove1 ''label'' (columns g)),
                     Some (column_values (relation s self) ''label'')) \<and>
              length (column_values (relation s self) ''label'') = len s self \<and>
              ''label'' \<in> set (columns g) \<and> ''label'' \<notin> set (remove1 ''label'' (columns g)) \<and>
              (\<exists>s' g'. drop_label s self True = (Inr None, s') \<and>
                 view_call s' (frame self) = Inr g' \<and>
                 unpack s' self = Inr (map (\<lambda>c. (c, np_array (column_values g' c))) (columns g'), None) \<and>
                 columns g' = remove1 ''label'' (columns g) \<and>
                 Suc (length (columns g')) = length (columns g))) \<and>
           (\<not> has_label s self \<longrightarrow>
              unpack s self = Inr (map (\<lambda>c. (c, np_array (column_values g c))) (columns g), None))"
proof (cases "has_label s self")
  case True
  let ?s' = "rebound s self (without_label (relation s self))"
  from unpack_labelled [OF assms True] obtain g where
    g: "view_call s (frame self) = Inr g" "columns g = joined_columns s self"
      "length (rows g) = len s self"
      "unpack s self =
             Inr (map (\<lambda>c. (c, np_array (column_values g c))) (remove1 ''label'' (joined_columns s self)),
                  Some (column_values (relation s self) ''label''))"
    by blast
  from assms have dj: "distinct (joined_columns s self)"
    by (simp add: well_formed_def)
  note j = joined_columns_without_label [OF assms True]
  have nl: "\<not> has_label ?s' self"
    using drop_label_inplace [of s self] assms True
    by (simp add: has_label_def rebound_frames well_formed_def pack_ok_def without_label_def)
  from unpack_unlabelled [OF well_formed_without_label [OF assms] nl] obtain g' where
    g': "view_call ?s' (frame self) = Inr g'" "columns g' = joined_columns ?s' self"
      "unpack ?s' self = Inr (map (\<lambda>c. (c, np_array (column_values g' c))) (joined_columns ?s' self), None)"
    by blast
  have c': "columns g' = remove1 ''label'' (columns g)"
    unfolding g'(2) g(2) j(2) remove1_label_filter [OF dj] ..
  have "length (remove1 ''label'' (columns g)) = length (columns g) - 1"
    using j(1) by (simp add: g(2) length_remove1)
  moreover have "0 < length (columns g)"
    using j(1) g(2) by (cases "columns g") auto
  ultimately have n: "Suc (length (columns g')) = length (columns g)"
    unfolding c' by simp
  have d: "\<exists>s' g'. drop_label s self True = (Inr None, s') \<and>
                 view_call s' (frame self) = Inr g' \<and>
                 unpack s' self = Inr (map (\<lambda>c. (c, np_array (column_values g' c))) (columns g'), None) \<and>
                 columns g' = remove1 ''label'' (columns g) \<and>
                 Suc (length (columns g')) = length (columns g)"
    using drop_label_inplace_store [OF True] g'(1) g'(3) [folded g'(2)] c' n by blast
  have "''label'' \<notin> set (remove1 ''label'' (columns g))"
    using dj by (simp add: g(2))
  have a1: "\<forall>c. length (np_array (column_values g c)) = len s self"
    by (simp add: g(3))
  have a2: "\<forall>c. list_all is_text (column_values g c) \<or> \<not> list_ex is_text (column_values g c) \<longrightarrow>
                  np_array (column_values g c) = column_values g c"
    using np_array_texts np_array_numbers by blast
  have a3: "\<forall>c. list_ex is_text (column_values g c) \<longrightarrow>
                  np_array (column_values g c) = map (\<lambda>v. StrV (py_str v)) (column_values g c)"
    by (simp add: np_array_def)
  have ly: "length (column_values (relation s self) ''label'') = len s self"
    by (simp add: len_def)
  from g(4) have u: "unpack s self =
                Inr (map (\<lambda>c. (c, np_array (column_values g c))) (remove1 ''label'' (columns g)),
                     Some (column_values (relation s self) ''label''))"
    by (simp only: g(2))
  from j(1) have lg: "''label'' \<in> set (columns g)"
    by (simp only: g(2))
  show ?thesis
    apply (rule exI [of _ g])
    apply (intro conjI impI)
           apply (rule g(1))
          apply (rule a1)
         apply (rule a2)
        apply (rule a3)
       apply (rule u)
      apply (rule ly)
     apply (rule lg)
    using True d \<open>''label'' \<notin> set (remove1 ''label'' (columns g))\<close> apply simp_all
    done
next
  case False
  from unpack_unlabelled [OF assms False] obtain g where
    g: "view_call s (frame self) = Inr g" "columns g = joined_columns s self"
      "length (rows g) = len s self"
      "unpack s self = Inr (map (\<lambda>c. (c, np_array (column_values g c))) (joined_columns s self), None)"
    by blast
  have a1: "\<forall>c. length (np_array (column_values g c)) = len s self"
    by (simp add: g(3))
  have a2: "\<forall>c. list_all is_text (column_values g c) \<or> \<not> list_ex is_text (column_values g c) \<longrightarrow>
                  np_array (column_values g c) = column_values g c"
    using np_array_texts np_array_numbers by blast
  have a3: "\<forall>c. list_ex is_text (column_values g c) \<longrightarrow>
                  np_array (column_values g c) = map (\<lambda>v. StrV (py_str v)) (column_values g c)"
    by (simp add: np_array_def)
  from g(4) have u: "unpack s self = Inr (map (\<lambda>c. (c, np_array (column_values g c))) (columns g), None)"
    by (simp only: g(2))
  show ?thesis
    apply (rule exI [of _ g])
    apply (intro conjI impI)
        apply (rule g(1))
       apply (rule a1)
      apply (rule a2)
     apply (rule a3)
    using False u apply simp_all
    done
qed

theorem unpack_splits_frame_witness:
  "\<exists>x. unpack example_store 0 = Inr (x, Some [IntV 1, IntV 1]) \<and>
     map fst x = [''id_left'', ''text_left'', ''id_right'', ''text_right''] \<and>
     map_of x ''text_left'' = Some [StrV ''query 1'', StrV ''query 2'']"
proof -
  have h: "has_label example_store 0" by code_simp
  from unpack_splits_frame [OF example_wf]
  have "\<exists>g. view_call example_store (frame 0) = Inr g \<and>
      (has_label example_store 0 \<longrightarrow> unpack example_store 0 =
         Inr (map (\<lambda>c. (c, np_array (column_values g c))) (remove1 ''label'' (columns g)),
              Some (column_values (relation example_store 0) ''label'')))"
    apply (elim exE conjE)
    subgoal for g
      apply (rule exI [of _ g])
      apply (rule conjI, assumption)
      apply (rule impI)
      apply (drule (1) mp)
      apply (elim conjE)
      apply assumption
      done
    done
  then obtain g where
    g1: "view_call example_store (frame 0) = Inr g" and
    g2: "has_label example_store 0 \<longrightarrow> unpack example_store 0 =
         Inr (map (\<lambda>c. (c, np_array (column_values g c))) (remove1 ''label'' (columns g)),
              Some (column_values (relation example_store 0) ''label''))"
    by (elim exE conjE)
  from g2 h have g3: "unpack example_store 0 =
         Inr (map (\<lambda>c. (c, np_array (column_values g c))) (remove1 ''label'' (columns g)),
              Some (column_values (relation example_store 0) ''label''))"
    by (rule mp)
  from g1 [unfolded example_full_frame]
  have "\<lparr>index_name = None, index = [IntV 0, IntV 1],
          columns = [''id_left'', ''text_left'', ''id_right'', ''text_right'', ''label''],
          rows = [[StrV ''qid1'', StrV ''query 1'', StrV ''did1'', StrV ''document 1'', IntV 1],
                  [StrV ''qid2'', StrV ''query 2'', StrV ''did2'', StrV ''document 2'', IntV 1]]\<rparr> = g"
    by (simp only: sum.inject)
  then have ge: "g = \<lparr>index_name = None, index = [IntV 0, IntV 1],
          columns = [''id_left'', ''text_left'', ''id_right'', ''text_right'', ''label''],
          rows = [[StrV ''qid1'', StrV ''query 1'', StrV ''did1'', StrV ''document 1'', IntV 1],
                  [StrV ''qid2'', StrV ''query 2'', StrV ''did2'', StrV ''document 2'', IntV 1]]\<rparr>"
    by (rule sym)
  have y: "column_values (relation example_store 0) ''label'' = [IntV 1, IntV 1]"
    by code_simp
  have x1: "map fst (map (\<lambda>c. (c, np_array (column_values g c))) (remove1 ''label'' (columns g))) =
      [''id_left'', ''text_left'', ''id_right'', ''text_right'']"
    unfolding ge by code_simp
  have x2: "map_of (map (\<lambda>c. (c, np_array (column_values g c))) (remove1 ''label'' (columns g))) ''text_left'' =
      Some [StrV ''query 1'', StrV ''query 2'']"
    unfolding ge by code_simp
  show ?thesis
    apply (rule exI [of _ "map (\<lambda>c. (c, np_array (column_values g c))) (remove1 ''label'' (columns g))"])
    apply (intro conjI)
      apply (simp only: g3 y)
     apply (rule x1)
    apply (rule x2)
    done
qed

text \<open>
  On the store with the column \<open>text_right\<close> in both entity tables \<^verbatim>\<open>unpack\<close> raises,
  as the full frame does. On the well-formed store whose second document has the number
  7 as its text, the full frame holds that number and \<open>X\<close> holds the text \<open>7\<close>.
\<close>

theorem unpack_name_clash_counterexample:
  "pack_ok clash_store 0 \<and> numbered_from_zero (relation clash_store 0) \<and>
   has_id_columns (relation clash_store 0) \<and> unique_identifiers clash_store 0 \<and>
   referential_integrity clash_store 0 \<and> has_label clash_store 0 \<and>
   unpack clash_store 0 = Inl ValueError \<and>
   well_formed mixed_store 0 \<and>
   view_call mixed_store (frame 0) =
     Inr \<lparr>index_name = None, index = [IntV 0, IntV 1],
          columns = [''id_left'', ''text_left'', ''id_right'', ''text_right'', ''label''],
          rows = [[StrV ''qid1'', StrV ''query 1'', StrV ''did1'', StrV ''document 1'', IntV 1],
                  [StrV ''qid2'', StrV ''query 2'', StrV ''did2'', IntV 7, IntV 1]]\<rparr> \<and>
   unpack mixed_store 0 =
     Inr ([(''id_left'', [StrV ''qid1'', StrV ''qid2'']),
           (''text_left'', [StrV ''query 1'', StrV ''query 2'']),
           (''id_right'', [StrV ''did1'', StrV ''did2'']),
           (''text_right'', [StrV ''document 1'', StrV ''7''])],
          Some [IntV 1, IntV 1])"
  unfolding clash_store_def by code_simp

section \<open>Persistence\<close>

lemma save_existing:
  assumes "path_exists (dirpath @ [DATA_FILENAME]) fs"
  shows "save s self dirpath fs = (Inl FileExistsError, fs)"
  using assms by (simp add: save_def)

lemma is_dir_not_file: "is_dir p fs \<Longrightarrow> \<not> is_file p fs"
  by (auto simp: is_dir_def is_file_def split: option.splits node.splits)

lemma is_dir_ancestors:
  assumes "fs_ok fs" "is_dir q fs"
  shows "is_dir (take k q) fs"
proof (induction "length q - k" arbitrary: k)
  case 0
  then show ?case using assms(2) by simp
next
  case (Suc n)
  then have k: "Suc k \<le> length q" "n = length q - Suc k" by simp_all
  from Suc.hyps(1) [OF k(2)] have d: "is_dir (take (Suc k) q) fs" .
  have b: "butlast (take (Suc k) q) = take k q"
    using k(1) by (simp add: butlast_take)
  from d have "take (Suc k) q = [] \<or> nodes fs (take (Suc k) q) \<noteq> None"
    by (auto simp: is_dir_def)
  then show ?case
  proof
    assume "take (Suc k) q = []"
    with k(1) show ?thesis by (cases q) simp_all
  next
    assume "nodes fs (take (Suc k) q) \<noteq> None"
    with assms(1) have "is_dir (butlast (take (Suc k) q)) fs"
      by (simp add: fs_ok_def)
    with b show ?thesis by simp
  qed
qed

lemma not_below_file:
  assumes "fs_ok fs" "is_dir (butlast p) fs"
  shows "\<not> below_file p fs"
proof -
  have "\<not> is_file (take k p) fs" if "k < length p" for k
  proof -
    from that have "take k p = take k (butlast p)"
      by (simp add: take_butlast)
    with is_dir_ancestors [OF assms, of k] show ?thesis
      by (simp add: is_dir_not_file)
  qed
  then show ?thesis
    by (simp add: below_file_def list_ex_iff)
qed

lemma save_creates_directory:
  assumes ok: "fs_ok fs" and ne: "\<not> path_exists dirpath fs"
    and parent: "is_dir (butlast dirpath) fs"
  shows "save s self dirpath fs =
           (Inr (), fs\<lparr>nodes := (nodes fs)(dirpath \<mapsto> Dir, dirpath @ [DATA_FILENAME] \<mapsto> File (dump s self))\<rparr>)"
proof -
  let ?d = "dirpath @ [DATA_FILENAME]"
  let ?fs1 = "fs\<lparr>nodes := (nodes fs)(dirpath \<mapsto> Dir)\<rparr>"
  from ne have nd: "dirpath \<noteq> []" "nodes fs dirpath = None"
    by (simp_all add: path_exists_def)
  have nf: "\<not> path_exists ?d fs"
  proof
    assume "path_exists ?d fs"
    then have "nodes fs ?d \<noteq> None" by (simp add: path_exists_def)
    with ok have "is_dir (butlast ?d) fs" unfolding fs_ok_def by blast
    with nd show False by (simp add: is_dir_def)
  qed
  have pe: "path_exists (butlast dirpath) fs"
    using parent by (auto simp: is_dir_def path_exists_def)
  have mk: "mkdir dirpath fs = Inr ?fs1"
    using ne pe not_below_file [OF ok parent] by (simp add: mkdir_def)
  have ok1: "fs_ok ?fs1"
    using ok parent by (auto simp: fs_ok_def is_dir_def)
  have d1: "is_dir (butlast ?d) ?fs1" "\<not> is_dir ?d ?fs1" "path_exists (butlast ?d) ?fs1"
    using nf by (auto simp: is_dir_def path_exists_def)
  have wr: "write_file ?d (dump s self) ?fs1 =
      Inr (?fs1\<lparr>nodes := (nodes ?fs1)(?d \<mapsto> File (dump s self))\<rparr>)"
    using d1 not_below_file [OF ok1 d1(1)] by (simp add: write_file_def)
  show ?thesis
    using nf ne by (simp add: save_def Let_def mk wr)
qed

lemma save_into_directory:
  assumes ok: "fs_ok fs" and dir: "is_dir dirpath fs"
    and nf: "\<not> path_exists (dirpath @ [DATA_FILENAME]) fs"
  shows "save s self dirpath fs =
           (Inr (), fs\<lparr>nodes := (nodes fs)(dirpath @ [DATA_FILENAME] \<mapsto> File (dump s self))\<rparr>)"
proof -
  let ?d = "dirpath @ [DATA_FILENAME]"
  have pe: "path_exists dirpath fs"
    using dir by (auto simp: is_dir_def path_exists_def)
  have d1: "is_dir (butlast ?d) fs" "\<not> is_dir ?d fs" "path_exists (butlast ?d) fs"
    using nf dir pe by (auto simp: is_dir_def path_exists_def)
  have wr: "write_file ?d (dump s self) fs =
      Inr (fs\<lparr>nodes := (nodes fs)(?d \<mapsto> File (dump s self))\<rparr>)"
    using d1 not_below_file [OF ok d1(1)] by (simp add: write_file_def)
  show ?thesis
    using nf pe by (simp add: save_def Let_def wr)
qed

lemma below_file_update:
  "below_file p (fs\<lparr>nodes := (nodes fs)(p \<mapsto> n)\<rparr>) = below_file p fs"
proof -
  have "is_file (take k p) (fs\<lparr>nodes := (nodes fs)(p \<mapsto> n)\<rparr>) = is_file (take k p) fs"
    if "k < length p" for k
  proof -
    from that have "length (take k p) \<noteq> length p" by simp
    then have "take k p \<noteq> p" by metis
    then show ?thesis by (simp add: is_file_def)
  qed
  then show ?thesis
    unfolding below_file_def list_ex_iff by (intro bex_cong refl) simp
qed

lemma save_written:
  assumes "save s self dirpath fs = (Inr (), fs')"
  shows "nodes fs' (dirpath @ [DATA_FILENAME]) = Some (File (dump s self))"
    and "\<not> below_file (dirpath @ [DATA_FILENAME]) fs'"
proof -
  let ?d = "dirpath @ [DATA_FILENAME]"
  from assms obtain fs1 where w: "write_file ?d (dump s self) fs1 = Inr fs'"
    by (auto simp: save_def Let_def split: if_splits sum.splits)
  then have f: "fs' = fs1\<lparr>nodes := (nodes fs1)(?d \<mapsto> File (dump s self))\<rparr>"
    and nb: "\<not> below_file ?d fs1"
    by (auto simp: write_file_def split: if_splits)
  show "nodes fs' ?d = Some (File (dump s self))"
    by (simp add: f)
  from nb show "\<not> below_file ?d fs'"
    unfolding f below_file_update .
qed

lemma position_in_nth:
  assumes "r \<in> set rs"
  shows "position_in r rs < length rs \<and> rs ! position_in r rs = r"
  using assms unfolding position_in_def by (induction rs) auto

lemma load_after_save:
  assumes "save s self dirpath fs = (Inr (), fs')"
  shows "\<exists>q t'. load_data_pack dirpath fs' t = (Inr q, t') \<and> q = length (packs t) \<and>
           unchanged t t' \<and>
           relation t' q = relation s self \<and> left t' q = left s self \<and> right t' q = right s self \<and>
           (left_ref (packs t' ! q) = right_ref (packs t' ! q)) =
             (left_ref (packs s ! self) = right_ref (packs s ! self))"
proof -
  let ?p = "packs s ! self"
  let ?refs = "remdups [relation_ref ?p, left_ref ?p, right_ref ?p]"
  let ?frs = "map (\<lambda>r. frames s ! r) ?refs"
  let ?pp = "\<lparr>relation_ref = position_in (relation_ref ?p) ?refs,
            left_ref = position_in (left_ref ?p) ?refs,
            right_ref = position_in (right_ref ?p) ?refs\<rparr>"
  let ?t' = "t\<lparr>frames := frames t @ ?frs,
               packs := packs t @ [\<lparr>relation_ref = length (frames t) + relation_ref ?pp,
                                    left_ref = length (frames t) + left_ref ?pp,
                                    right_ref = length (frames t) + right_ref ?pp\<rparr>]\<rparr>"
  have d: "dump s self = Pickle ?frs ?pp"
    by (simp only: dump_def Let_def)
  note w = save_written [OF assms]
  have ld: "load_data_pack dirpath fs' t = (Inr (length (packs t)), ?t')"
    using w by (simp only: load_data_pack_def Let_def d if_False option.case node.case blob.case)
  have m: "relation_ref ?p \<in> set ?refs" "left_ref ?p \<in> set ?refs" "right_ref ?p \<in> set ?refs"
    by simp_all
  note pn = m [THEN position_in_nth]
  have fr: "?frs ! position_in r ?refs = frames s ! r" if "r \<in> set ?refs" for r
    using position_in_nth [OF that] by (simp only: nth_map length_map)
  have "relation ?t' (length (packs t)) = ?frs ! position_in (relation_ref ?p) ?refs"
    "left ?t' (length (packs t)) = ?frs ! position_in (left_ref ?p) ?refs"
    "right ?t' (length (packs t)) = ?frs ! position_in (right_ref ?p) ?refs"
    by (simp_all add: relation_def left_def right_def del: remdups.simps)
  then have c: "relation ?t' (length (packs t)) = relation s self"
    "left ?t' (length (packs t)) = left s self" "right ?t' (length (packs t)) = right s self"
    using fr [OF m(1)] fr [OF m(2)] fr [OF m(3)]
    by (simp_all only: relation_def left_def right_def)
  have u: "unchanged t ?t'"
    by (simp add: unchanged_def)
  have a: "(position_in (left_ref ?p) ?refs = position_in (right_ref ?p) ?refs) =
           (left_ref ?p = right_ref ?p)"
    using pn(2,3) by metis
  have al: "(left_ref (packs ?t' ! length (packs t)) = right_ref (packs ?t' ! length (packs t))) =
             (left_ref ?p = right_ref ?p)"
    using a by (simp del: remdups.simps)
  from ld u c al show ?thesis by blast
qed

lemma save_without_parent:
  assumes "\<not> path_exists dirpath fs" "\<not> is_dir (butlast dirpath) fs"
  shows "\<exists>e. save s self dirpath fs = (Inl e, fs)"
proof (cases "path_exists (dirpath @ [DATA_FILENAME]) fs")
  case True
  then show ?thesis by (simp add: save_existing)
next
  case False
  from assms(1) have ne: "dirpath \<noteq> []" by (simp add: path_exists_def)
  have "\<exists>e. mkdir dirpath fs = Inl e"
  proof (cases "path_exists (butlast dirpath) fs")
    case False
    with assms(1) show ?thesis by (simp add: mkdir_def)
  next
    case True
    with assms(2) have "is_file (butlast dirpath) fs"
      by (auto simp: path_exists_def is_dir_def is_file_def split: node.splits)
    then have "is_file (take (length dirpath - 1) dirpath) fs"
      by (simp add: butlast_conv_take)
    moreover have "length dirpath - 1 < length dirpath"
      using ne by simp
    ultimately have "below_file dirpath fs"
      unfolding below_file_def list_ex_iff by (metis atLeastLessThan_iff set_upt zero_le)
    with assms(1) show ?thesis by (simp add: mkdir_def)
  qed
  then obtain e where "mkdir dirpath fs = Inl e" by blast
  with False assms(1) show ?thesis by (simp add: save_def Let_def)
qed

text \<open>
  C9, as the code has it. When the data file exists in the directory, \<^verbatim>\<open>save\<close> raises
  \<^verbatim>\<open>FileExistsError\<close> and the file system is as it was. When the directory does not
  exist and its parent is an existing directory, \<^verbatim>\<open>save\<close> makes the directory and
  writes the data file, and nothing else changes; when the parent is not an existing
  directory, \<^verbatim>\<open>save\<close> raises and the file system is as it was. After any \<^verbatim>\<open>save\<close> that
  returned, \<^verbatim>\<open>load_data_pack\<close> on the directory gives, in whatever store, a new
  \<^verbatim>\<open>DataPack\<close> with the three frames of the one saved.
\<close>

theorem save_then_load:
  "(path_exists (dirpath @ [DATA_FILENAME]) fs \<longrightarrow>
      save s self dirpath fs = (Inl FileExistsError, fs)) \<and>
   (fs_ok fs \<and> \<not> path_exists dirpath fs \<and> is_dir (butlast dirpath) fs \<longrightarrow>
      (\<exists>fs'. save s self dirpath fs = (Inr (), fs') \<and> is_dir dirpath fs' \<and>
         nodes fs' (dirpath @ [DATA_FILENAME]) = Some (File (dump s self)) \<and>
         (\<forall>p. p \<noteq> dirpath \<and> p \<noteq> dirpath @ [DATA_FILENAME] \<longrightarrow> nodes fs' p = nodes fs p))) \<and>
   (\<not> path_exists dirpath fs \<and> \<not> is_dir (butlast dirpath) fs \<longrightarrow>
      (\<exists>e. save s self dirpath fs = (Inl e, fs))) \<and>
   (\<forall>fs' t. save s self dirpath fs = (Inr (), fs') \<longrightarrow>
      (\<exists>q t'. load_data_pack dirpath fs' t = (Inr q, t') \<and> q = length (packs t) \<and>
         unchanged t t' \<and> relation t' q = relation s self \<and>
         left t' q = left s self \<and> right t' q = right s self))"
proof (intro conjI impI allI)
  assume "path_exists (dirpath @ [DATA_FILENAME]) fs"
  then show "save s self dirpath fs = (Inl FileExistsError, fs)"
    by (rule save_existing)
next
  assume a: "fs_ok fs \<and> \<not> path_exists dirpath fs \<and> is_dir (butlast dirpath) fs"
  then have "save s self dirpath fs =
           (Inr (), fs\<lparr>nodes := (nodes fs)(dirpath \<mapsto> Dir, dirpath @ [DATA_FILENAME] \<mapsto> File (dump s self))\<rparr>)"
    by (intro save_creates_directory) simp_all
  then show "\<exists>fs'. save s self dirpath fs = (Inr (), fs') \<and> is_dir dirpath fs' \<and>
         nodes fs' (dirpath @ [DATA_FILENAME]) = Some (File (dump s self)) \<and>
         (\<forall>p. p \<noteq> dirpath \<and> p \<noteq> dirpath @ [DATA_FILENAME] \<longrightarrow> nodes fs' p = nodes fs p)"
    by (simp add: is_dir_def)
next
  assume "\<not> path_exists dirpath fs \<and> \<not> is_dir (butlast dirpath) fs"
  then show "\<exists>e. save s self dirpath fs = (Inl e, fs)"
    by (intro save_without_parent) simp_all
next
  fix fs' t
  assume "save s self dirpath fs = (Inr (), fs')"
  from load_after_save [OF this, of t]
  show "\<exists>q t'. load_data_pack dirpath fs' t = (Inr q, t') \<and> q = length (packs t) \<and>
         unchanged t t' \<and> relation t' q = relation s self \<and>
         left t' q = left s self \<and> right t' q = right s self"
    by blast
qed

lemma empty_fs_ok: "fs_ok empty_fs"
  by (simp add: fs_ok_def empty_fs_def)

theorem save_missing_parent_counterexample:
  "fs_ok empty_fs \<and> \<not> path_exists [''a'', ''b''] empty_fs \<and>
   save example_store 0 [''a'', ''b''] empty_fs = (Inl FileNotFoundError, empty_fs)"
proof -
  have "\<not> below_file [''a'', ''b''] empty_fs"
    by (simp add: below_file_def is_file_def empty_fs_def)
  then have "mkdir [''a'', ''b''] empty_fs = Inl FileNotFoundError"
    by (simp add: mkdir_def path_exists_def empty_fs_def)
  then have "save example_store 0 [''a'', ''b''] empty_fs = (Inl FileNotFoundError, empty_fs)"
    by (simp add: save_def Let_def path_exists_def empty_fs_def)
  moreover have "\<not> path_exists [''a'', ''b''] empty_fs"
    by (simp add: path_exists_def empty_fs_def)
  ultimately show ?thesis using empty_fs_ok by simp
qed

theorem save_then_load_witness:
  "\<exists>fs' q t'. save example_store 0 [''out''] empty_fs = (Inr (), fs') \<and>
     save example_store 0 [''out''] fs' = (Inl FileExistsError, fs') \<and>
     load_data_pack [''out''] fs' example_store = (Inr q, t') \<and>
     relation t' q = example_relation \<and> left t' q = example_left \<and> right t' q = example_right"
proof -
  have h: "fs_ok empty_fs \<and> \<not> path_exists [''out''] empty_fs \<and> is_dir (butlast [''out'']) empty_fs"
    using empty_fs_ok by (simp add: path_exists_def is_dir_def empty_fs_def)
  from save_then_load [of "[''out'']" empty_fs example_store 0] h
  obtain fs' where s1: "save example_store 0 [''out''] empty_fs = (Inr (), fs')"
    and n: "nodes fs' ([''out''] @ [DATA_FILENAME]) = Some (File (dump example_store 0))"
    by blast
  from n have e: "path_exists ([''out''] @ [DATA_FILENAME]) fs'"
    by (simp add: path_exists_def)
  from save_then_load [of "[''out'']" fs' example_store 0] e
  have s2: "save example_store 0 [''out''] fs' = (Inl FileExistsError, fs')"
    by blast
  from save_then_load [of "[''out'']" empty_fs example_store 0] s1
  obtain q t' where "load_data_pack [''out''] fs' example_store = (Inr q, t')"
    "relation t' q = relation example_store 0" "left t' q = left example_store 0"
    "right t' q = right example_store 0"
    by blast
  with s1 s2 show ?thesis by simp
qed

end
